theory Spec2Isabelle
  imports Main "HOL-Library.List_Lexorder" "HOL-Library.Char_ord"
begin

section \<open>Data model of \<^verbatim>\<open>parser_cpp/logica_parse.cpp\<close>\<close>

subsection \<open>Heritage-aware strings\<close>

text \<open>
  \<^verbatim>\<open>struct SpanString\<close>: the full text of one file and a half-open byte range in it.
  The shared pointer is modelled by the text itself; strings are byte lists.
\<close>

record SpanString =
  heritage :: string
  start :: nat
  stop :: nat

subsection \<open>Exceptions\<close>

text \<open>
  \<^verbatim>\<open>ParsingException\<close> carries its message and location. The accessors of the JSON value
  raise the standard exceptions \<^verbatim>\<open>std::out_of_range\<close> (\<^verbatim>\<open>map::at\<close>) and
  \<^verbatim>\<open>std::bad_variant_access\<close> (\<^verbatim>\<open>std::get\<close>). A function that may throw returns
  \<open>error + 'a\<close>, with \<open>Inl\<close> the exception. The recursion of the parser is bounded by
  the call stack only; \<open>stack_overflow\<close> is the result of a parser whose depth is bounded
  when it would nest deeper.
\<close>

datatype error =
    ParsingException string SpanString
  | out_of_range
  | bad_variant_access
  | stack_overflow

definition bindE :: "error + 'a \<Rightarrow> ('a \<Rightarrow> error + 'b) \<Rightarrow> error + 'b" where
  "bindE m f = (case m of Inl e \<Rightarrow> Inl e | Inr v \<Rightarrow> f v)"

fun mapE :: "('a \<Rightarrow> error + 'b) \<Rightarrow> 'a list \<Rightarrow> error + 'b list" where
  "mapE f [] = Inr []"
| "mapE f (x # xs) = bindE (f x) (\<lambda>y. bindE (mapE f xs) (\<lambda>ys. Inr (y # ys)))"

subsection \<open>The JSON value\<close>

text \<open>
  \<^verbatim>\<open>struct Json\<close> is a variant of null, bool, \<^verbatim>\<open>int64_t\<close>, string, array and object. An
  object is a \<^verbatim>\<open>std::map<std::string, Json>\<close>: here an association list, which the
  operations below keep sorted by key when it was sorted. The integers of the parser are
  field positions, far from the 64-bit range, and are modelled by \<open>int\<close>.
\<close>

datatype Json =
    JNull
  | JBool bool
  | JInt int
  | JString string
  | JArray "Json list"
  | JObject "(string \<times> Json) list"

type_synonym JsonObject = "(string \<times> Json) list"
type_synonym JsonArray = "Json list"

fun is_object :: "Json \<Rightarrow> bool" where
  "is_object (JObject ob) = True"
| "is_object _ = False"

fun is_array :: "Json \<Rightarrow> bool" where
  "is_array (JArray a) = True"
| "is_array _ = False"

fun is_string :: "Json \<Rightarrow> bool" where
  "is_string (JString s) = True"
| "is_string _ = False"

fun is_int :: "Json \<Rightarrow> bool" where
  "is_int (JInt n) = True"
| "is_int _ = False"

fun is_null :: "Json \<Rightarrow> bool" where
  "is_null JNull = True"
| "is_null _ = False"

fun as_object :: "Json \<Rightarrow> error + JsonObject" where
  "as_object (JObject ob) = Inr ob"
| "as_object _ = Inl bad_variant_access"

fun as_array :: "Json \<Rightarrow> error + JsonArray" where
  "as_array (JArray a) = Inr a"
| "as_array _ = Inl bad_variant_access"

fun as_string :: "Json \<Rightarrow> error + string" where
  "as_string (JString s) = Inr s"
| "as_string _ = Inl bad_variant_access"

fun as_int :: "Json \<Rightarrow> error + int" where
  "as_int (JInt n) = Inr n"
| "as_int _ = Inl bad_variant_access"

text \<open>\<^verbatim>\<open>find\<close>, \<^verbatim>\<open>count\<close>, \<^verbatim>\<open>at\<close>, \<^verbatim>\<open>erase\<close> and \<^verbatim>\<open>operator[]\<close> of \<^verbatim>\<open>std::map\<close>.\<close>

definition obj_find :: "string \<Rightarrow> JsonObject \<Rightarrow> Json option" where
  "obj_find k ob = map_of ob k"

definition obj_count :: "string \<Rightarrow> JsonObject \<Rightarrow> bool" where
  "obj_count k ob = (obj_find k ob \<noteq> None)"

definition obj_at :: "string \<Rightarrow> JsonObject \<Rightarrow> error + Json" where
  "obj_at k ob = (case obj_find k ob of None \<Rightarrow> Inl out_of_range | Some v \<Rightarrow> Inr v)"

definition obj_erase :: "string \<Rightarrow> JsonObject \<Rightarrow> JsonObject" where
  "obj_erase k ob = filter (\<lambda>kv. fst kv \<noteq> k) ob"

text \<open>Assignment \<^verbatim>\<open>ob[k] = v\<close>: replace the entry of \<open>k\<close>, or insert it in key order.\<close>

fun obj_set :: "string \<Rightarrow> Json \<Rightarrow> JsonObject \<Rightarrow> JsonObject" where
  "obj_set k v [] = [(k, v)]"
| "obj_set k v ((k', v') # ob) =
     (if k = k' then (k, v) # ob
      else if k < k' then (k, v) # (k', v') # ob
      else (k', v') # obj_set k v ob)"

text \<open>Assignment through an iterator or reference to an existing entry (\<^verbatim>\<open>it->second = v\<close>).\<close>

fun obj_replace :: "string \<Rightarrow> Json \<Rightarrow> JsonObject \<Rightarrow> JsonObject" where
  "obj_replace k v [] = []"
| "obj_replace k v ((k', v') # ob) =
     (if k = k' then (k, v) # ob else (k', v') # obj_replace k v ob)"

definition HasKey :: "Json \<Rightarrow> string \<Rightarrow> bool" where
  "HasKey j k = (case j of JObject ob \<Rightarrow> obj_count k ob | _ \<Rightarrow> False)"

subsection \<open>Basic facts about the exception monad\<close>

lemma bindE_cong [fundef_cong]:
  "m = m' \<Longrightarrow> (\<And>v. m' = Inr v \<Longrightarrow> f v = f' v) \<Longrightarrow> bindE m f = bindE m' f'"
  by (auto simp: bindE_def split: sum.splits)

lemma mapE_cong [fundef_cong]:
  "xs = ys \<Longrightarrow> (\<And>x. x \<in> set ys \<Longrightarrow> f x = g x) \<Longrightarrow> mapE f xs = mapE g ys"
  by (induction ys arbitrary: xs) (auto intro: bindE_cong)

lemma bindE_Inr_iff: "bindE m f = Inr y \<longleftrightarrow> (\<exists>v. m = Inr v \<and> f v = Inr y)"
  by (auto simp: bindE_def split: sum.splits)

lemma bindE_simps [simp]: "bindE (Inr v) f = f v" "bindE (Inl e) f = Inl e"
  by (simp_all add: bindE_def)

lemma mapE_Inr_iff: "mapE f xs = Inr ys \<longleftrightarrow> list_all2 (\<lambda>x y. f x = Inr y) xs ys"
proof (induction xs arbitrary: ys)
  case Nil
  show ?case by auto
next
  case (Cons x xs)
  show ?case
    by (cases ys) (auto simp: bindE_Inr_iff Cons.IH)
qed


subsection \<open>Operations of \<^verbatim>\<open>SpanString\<close>\<close>

text \<open>
  The three-argument constructor clamps the range to the text. Every span the parser
  builds comes from a constructor, so \<open>start \<le> stop \<le> length heritage\<close> holds of it.
\<close>

definition SpanString3 :: "string \<Rightarrow> nat \<Rightarrow> nat \<Rightarrow> SpanString" where
  "SpanString3 h s e =
     (let stop' = (if e > length h then length h else e);
          start' = (if s > stop' then stop' else s)
      in \<lparr>heritage = h, start = start', stop = stop'\<rparr>)"

definition SpanString1 :: "string \<Rightarrow> SpanString" where
  "SpanString1 s = \<lparr>heritage = s, start = 0, stop = length s\<rparr>"

definition span_size :: "SpanString \<Rightarrow> nat" where
  "span_size s = stop s - start s"

definition span_empty :: "SpanString \<Rightarrow> bool" where
  "span_empty s = (span_size s = 0)"

definition view :: "SpanString \<Rightarrow> string" where
  "view s = take (stop s - start s) (drop (start s) (heritage s))"

definition str :: "SpanString \<Rightarrow> string" where
  "str s = view s"

text \<open>
  \<^verbatim>\<open>at\<close> reads the text at \<open>start + i\<close>, also past the end of the span. At the end of
  the text \<^verbatim>\<open>std::string::operator[]\<close> gives the terminating zero; the model gives zero
  past it too, where the C++ is undefined.
\<close>

definition at :: "SpanString \<Rightarrow> nat \<Rightarrow> char" where
  "at s i = (if start s + i < length (heritage s) then heritage s ! (start s + i) else CHR 0x00)"

definition slice :: "SpanString \<Rightarrow> nat \<Rightarrow> nat \<Rightarrow> SpanString" where
  "slice s rel_start rel_stop = SpanString3 (heritage s) (start s + rel_start) (start s + rel_stop)"

definition slice_from :: "SpanString \<Rightarrow> nat \<Rightarrow> SpanString" where
  "slice_from s rel_start = slice s rel_start (span_size s)"

definition slice_to :: "SpanString \<Rightarrow> nat \<Rightarrow> SpanString" where
  "slice_to s rel_stop = slice s 0 rel_stop"

definition starts_with :: "SpanString \<Rightarrow> string \<Rightarrow> bool" where
  "starts_with s p = (length (view s) \<ge> length p \<and> take (length p) (view s) = p)"

definition ends_with :: "SpanString \<Rightarrow> string \<Rightarrow> bool" where
  "ends_with s sfx =
     (length (view s) \<ge> length sfx \<and> drop (length (view s) - length sfx) (view s) = sfx)"

text \<open>The invariant of a constructed span.\<close>

definition span_ok :: "SpanString \<Rightarrow> bool" where
  "span_ok s = (start s \<le> stop s \<and> stop s \<le> length (heritage s))"

lemma span_ok_SpanString3 [simp]: "span_ok (SpanString3 h s e)"
  by (simp add: span_ok_def SpanString3_def Let_def)

lemma span_ok_SpanString1 [simp]: "span_ok (SpanString1 s)"
  by (simp add: span_ok_def SpanString1_def)

lemma span_ok_slice [simp]: "span_ok (slice s a b)"
  by (simp add: slice_def)

lemma heritage_slice [simp]: "heritage (slice s a b) = heritage s"
  by (simp add: slice_def SpanString3_def Let_def)

lemma length_view: "span_ok s \<Longrightarrow> length (view s) = span_size s"
  by (auto simp: view_def span_ok_def span_size_def)

lemma view_SpanString1 [simp]: "view (SpanString1 s) = s"
  by (simp add: view_def SpanString1_def)


section \<open>Traversal of brackets, strings and comments\<close>

subsection \<open>Character classes of the C locale\<close>

definition isspace :: "char \<Rightarrow> bool" where
  "isspace c = (c = CHR '' '' \<or> (CHR 0x09 \<le> c \<and> c \<le> CHR 0x0D))"

definition isdigit :: "char \<Rightarrow> bool" where
  "isdigit c = (CHR ''0'' \<le> c \<and> c \<le> CHR ''9'')"

definition islower :: "char \<Rightarrow> bool" where
  "islower c = (CHR ''a'' \<le> c \<and> c \<le> CHR ''z'')"

definition isupper :: "char \<Rightarrow> bool" where
  "isupper c = (CHR ''A'' \<le> c \<and> c \<le> CHR ''Z'')"

definition isalpha :: "char \<Rightarrow> bool" where
  "isalpha c = (islower c \<or> isupper c)"

definition isalnum :: "char \<Rightarrow> bool" where
  "isalnum c = (isalpha c \<or> isdigit c)"

subsection \<open>The traverser\<close>

datatype TraverseStatus = OK | Unmatched | EolInString

record TraverseStep =
  idx :: nat
  state :: string
  status :: TraverseStatus

text \<open>
  \<^verbatim>\<open>struct Traverser\<close> walks the view \<open>v\<close> of its span. Its fields are the index of the
  last character read, which starts at \<open>-1\<close>, and the stack \<^verbatim>\<open>state\<close>, whose top is its last
  character. The model keeps \<open>pos\<close>, the index of the next character to read (the
  field plus one), with the stack.
\<close>

type_synonym Traverser = "nat \<times> string"

definition State :: "string \<Rightarrow> char" where
  "State st = (if st = [] then CHR 0x00 else last st)"

definition sub2 :: "string \<Rightarrow> nat \<Rightarrow> string" where
  "sub2 v i = (if i + 2 > length v then [] else take 2 (drop i v))"

definition sub3 :: "string \<Rightarrow> nat \<Rightarrow> string" where
  "sub3 v i = (if i + 3 > length v then [] else take 3 (drop i v))"

definition triple_quote :: string where
  "triple_quote = [CHR 0x22, CHR 0x22, CHR 0x22]"

definition kCloseToOpen :: "char \<Rightarrow> char" where
  "kCloseToOpen c = (if c = CHR '')'' then CHR ''('' else if c = CHR ''}'' then CHR ''{'' else CHR ''['')"

text \<open>
  One call of \<^verbatim>\<open>Next\<close> reads the character at \<open>i\<close> and either yields a step or, for
  the invisible characters of a comment, calls itself on the rest. \<open>visit\<close> is the body of
  \<^verbatim>\<open>Next\<close> up to that choice.
\<close>

datatype Move = Hidden Traverser | Yield TraverseStep Traverser

text \<open>The tail of \<^verbatim>\<open>Next\<close>: bracket tracking, then the step with status OK.\<close>

definition track :: "bool \<Rightarrow> nat \<Rightarrow> char \<Rightarrow> string \<Rightarrow> Move" where
  "track track_parenthesis i c st =
     (if track_parenthesis \<and> (c = CHR ''('' \<or> c = CHR ''{'' \<or> c = CHR ''['') then
        Yield \<lparr>idx = i, state = st @ [c], status = OK\<rparr> (i + 1, st @ [c])
      else if track_parenthesis \<and> (c = CHR '')'' \<or> c = CHR ''}'' \<or> c = CHR '']'') then
        (if st \<noteq> [] \<and> last st = kCloseToOpen c then
           Yield \<lparr>idx = i, state = butlast st, status = OK\<rparr> (i + 1, butlast st)
         else Yield \<lparr>idx = i, state = [], status = Unmatched\<rparr> (i + 1, st))
      else Yield \<lparr>idx = i, state = st, status = OK\<rparr> (i + 1, st))"

definition visit :: "string \<Rightarrow> nat \<Rightarrow> string \<Rightarrow> Move" where
  "visit v i st =
     (let c = v ! i in
        if State st = CHR ''#'' then
          (if c = CHR 0x0A then track False i c (butlast st)
           else Hidden (i + 1, st))
        else if State st = CHR 0x22 then
          (if c = CHR 0x0A then
             Yield \<lparr>idx = i, state = [], status = EolInString\<rparr> (i + 1, st)
           else if c = CHR 0x22 then track False i c (butlast st)
           else track False i c st)
        else if State st = CHR 0x27 then
          (if c = CHR 0x27 then track False i c (butlast st)
           else if c = CHR 0x5C then track False i c (st @ [CHR 0x5C])
           else track False i c st)
        else if State st = CHR 0x5C then track True i c (butlast st)
        else if State st = CHR 0x60 then
          (if c = CHR 0x60 then track False i c (butlast st)
           else track False i c st)
        else if State st = CHR ''3'' then
          (if sub3 v i = triple_quote then
             Yield \<lparr>idx = i, state = butlast st, status = OK\<rparr>
                   (i + 1, butlast st @ [CHR 0x01, CHR 0x01])
           else track False i c st)
        else if State st = CHR ''/'' then
          (if sub2 v i = ''*/'' then Hidden (i + 2, butlast st)
           else Hidden (i + 1, st))
        else if State st = CHR 0x01 then
          Yield \<lparr>idx = i, state = butlast st, status = OK\<rparr> (i + 1, butlast st)
        else if c = CHR ''#'' then Hidden (i + 1, st @ [CHR ''#''])
        else if sub3 v i = triple_quote then
          Yield \<lparr>idx = i, state = st @ [CHR ''3''], status = OK\<rparr>
                (i + 1, st @ [CHR ''3'', CHR 0x01, CHR 0x01])
        else if c = CHR 0x22 then track True i c (st @ [CHR 0x22])
        else if c = CHR 0x27 then track True i c (st @ [CHR 0x27])
        else if c = CHR 0x60 then track True i c (st @ [CHR 0x60])
        else if sub2 v i = ''/*'' then Hidden (i + 2, st @ [CHR ''/''])
        else track True i c st)"

lemma track_Yield: "\<exists>step st'. track b i c st = Yield step (i + 1, st') \<and> idx step = i"
  by (simp add: track_def)

lemma visit_Hidden:
  "visit v i st = Hidden (p, st') \<Longrightarrow> i < p \<and> (p = i + 1 \<or> p = i + 2 \<and> i + 2 \<le> length v)"
  using track_Yield [of _ i "v ! i"]
  by (auto simp: visit_def Let_def sub2_def split: if_splits) (metis Move.distinct(1))+

lemma visit_Yield:
  "visit v i st = Yield step (p, st') \<Longrightarrow> idx step = i \<and> p = i + 1"
  using track_Yield [of _ i "v ! i"]
  by (auto simp: visit_def Let_def split: if_splits) (metis Move.inject(2) prod.inject)+

function Next :: "string \<Rightarrow> Traverser \<Rightarrow> (TraverseStep \<times> Traverser) option" where
  "Next v (pos, st) =
     (if pos \<ge> length v then None
      else case visit v pos st of
             Hidden t \<Rightarrow> Next v t
           | Yield step t \<Rightarrow> Some (step, t))"
  by pat_completeness auto
termination
proof (relation "measure (\<lambda>(v, pos, st). length v - pos)")
  show "wf (measure (\<lambda>(v, pos, st). length v - pos))" by simp
next
  fix v pos st t
  assume "\<not> length v \<le> pos" "visit v pos st = Hidden t"
  then show "((v, t), (v, pos, st)) \<in> measure (\<lambda>(v, pos, st). length v - pos)"
    using visit_Hidden [of v pos st "fst t" "snd t"] by (cases t) auto
qed

declare Next.simps [simp del]

lemma Next_pos:
  "Next v (pos, st) = Some (step, (pos', st')) \<Longrightarrow>
     pos \<le> idx step \<and> pos' = idx step + 1 \<and> idx step < length v"
proof (induction v "(pos, st)" arbitrary: pos st rule: Next.induct)
  case (1 v pos st)
  from "1.prems" have lt: "pos < length v"
    by (subst (asm) Next.simps) (auto split: if_splits)
  show ?case
  proof (cases "visit v pos st")
    case (Hidden t)
    obtain p st2 where t: "t = (p, st2)" by (cases t)
    from "1.prems" Hidden lt have "Next v (p, st2) = Some (step, (pos', st'))"
      by (subst (asm) Next.simps) (simp add: t)
    moreover have "\<not> length v \<le> pos" using lt by simp
    ultimately show ?thesis
      using "1.hyps" [of p st2] Hidden visit_Hidden [OF Hidden [unfolded t]] by (auto simp: t)
  next
    case (Yield step2 t)
    with "1.prems" lt have "step2 = step" "t = (pos', st')"
      by (subst (asm) Next.simps; simp)+
    with visit_Yield [of v pos st step pos' st'] Yield lt show ?thesis by simp
  qed
qed


section \<open>Splitting and stripping\<close>

text \<open>The steps of a whole traversal, in order: the \<^verbatim>\<open>while (t.Next(step))\<close> loops.\<close>

function steps_from :: "string \<Rightarrow> Traverser \<Rightarrow> TraverseStep list" where
  "steps_from v t =
     (case Next v t of
        None \<Rightarrow> []
      | Some (step, t') \<Rightarrow> step # steps_from v t')"
  by pat_completeness auto
termination
proof (relation "measure (\<lambda>(v, t). length v - fst t)")
  show "wf (measure (\<lambda>(v, t). length v - fst t))" by simp
next
  fix v t x2 step t'
  assume "Next v t = Some x2" "(step, t') = x2"
  then have "Next v (fst t, snd t) = Some (step, (fst t', snd t'))" by simp
  from Next_pos [OF this]
  show "((v, t'), (v, t)) \<in> measure (\<lambda>(v, t). length v - fst t)" by auto
qed

declare steps_from.simps [simp del]

definition Traverse :: "SpanString \<Rightarrow> TraverseStep list" where
  "Traverse s = steps_from (view s) (0, [])"

definition RemoveComments :: "SpanString \<Rightarrow> error + string" where
  "RemoveComments s =
     mapE (\<lambda>step.
        if status step = Unmatched then
          Inl (ParsingException ''Parenthesis matches nothing.'' (slice s (idx step) (idx step + 1)))
        else if status step = EolInString then
          Inl (ParsingException ''End of line in string.'' (slice s (idx step) (idx step)))
        else Inr (at s (idx step))) (Traverse s)"

definition IsWhole :: "SpanString \<Rightarrow> bool" where
  "IsWhole s =
     (case Traverse s of
        [] \<Rightarrow> True
      | steps \<Rightarrow> status (last steps) = OK \<and> state (last steps) = [])"

function scan_left :: "string \<Rightarrow> nat \<Rightarrow> nat" where
  "scan_left v left = (if left < length v \<and> isspace (v ! left) then scan_left v (left + 1) else left)"
  by pat_completeness auto
termination
  by (relation "measure (\<lambda>(v, left). length v - left)") auto

function scan_right :: "string \<Rightarrow> nat \<Rightarrow> nat \<Rightarrow> nat" where
  "scan_right v left right =
     (if right > left \<and> isspace (v ! right) then scan_right v left (right - 1) else right)"
  by pat_completeness auto
termination
  by (relation "measure (\<lambda>(v, left, right). right)") auto

declare scan_left.simps [simp del] scan_right.simps [simp del]

definition StripSpaces :: "SpanString \<Rightarrow> SpanString" where
  "StripSpaces s =
     (let v = view s;
          left = scan_left v 0
      in if v = [] then slice s 0 0
         else slice s left (scan_right v left (length v - 1) + 1))"

lemma scan_left_le: "left \<le> length v \<Longrightarrow> scan_left v left \<le> length v"
  by (induction v left rule: scan_left.induct) (subst scan_left.simps, auto)

lemma scan_left_ge: "left \<le> scan_left v left"
  by (induction v left rule: scan_left.induct) (subst scan_left.simps, auto)

lemma scan_right_le: "scan_right v left right \<le> right"
  by (induction v left right rule: scan_right.induct) (subst scan_right.simps, auto)

lemma scan_right_ge: "left \<le> right \<Longrightarrow> left \<le> scan_right v left right"
  by (induction v left right rule: scan_right.induct) (subst scan_right.simps, auto)

lemma length_view_le: "length (view s) \<le> length (heritage s) - start s"
  by (simp add: view_def)

lemma view_slice:
  assumes "a \<le> b" "b \<le> length (view s)"
  shows "view (slice s a b) = take (b - a) (drop a (view s))"
proof (cases "b = 0")
  case True
  with assms show ?thesis
    by (simp add: view_def slice_def SpanString3_def Let_def)
next
  case False
  with assms(2) have b: "b \<le> stop s - start s" "start s + b \<le> length (heritage s)"
    by (auto simp: view_def)
  then have "slice s a b = \<lparr>heritage = heritage s, start = start s + a, stop = start s + b\<rparr>"
    using assms(1) by (simp add: slice_def SpanString3_def Let_def)
  then have "view (slice s a b) = take (b - a) (drop (start s + a) (heritage s))"
    by (simp add: view_def)
  moreover have "take (b - a) (drop a (view s)) = take (b - a) (drop (start s + a) (heritage s))"
    using b(1) by (simp add: view_def drop_take min_def add.commute)
  ultimately show ?thesis by simp
qed

lemma scan_right_ge_min: "min left right \<le> scan_right v left right"
  by (induction v left right rule: scan_right.induct) (subst scan_right.simps, auto)

lemma StripSpaces_view:
  assumes "view s \<noteq> []"
  shows "view (StripSpaces s) =
     take (scan_right (view s) (scan_left (view s) 0) (length (view s) - 1) + 1 - scan_left (view s) 0)
       (drop (scan_left (view s) 0) (view s))"
proof -
  let ?v = "view s"
  let ?l = "scan_left ?v 0"
  let ?r = "scan_right ?v ?l (length ?v - 1)"
  have r: "?r \<le> length ?v - 1" by (rule scan_right_le)
  have l: "?l \<le> length ?v" by (rule scan_left_le) simp
  have "min ?l (length ?v - 1) \<le> ?r" by (rule scan_right_ge_min)
  with l assms have lr: "?l \<le> ?r + 1" by (cases "?v") (auto simp: min_def split: if_splits)
  from r assms have "?r + 1 \<le> length ?v" by (cases ?v) auto
  with lr have "view (slice s ?l (?r + 1)) = take (?r + 1 - ?l) (drop ?l ?v)"
    by (rule view_slice)
  with assms show ?thesis by (simp add: StripSpaces_def Let_def)
qed

lemma length_view_StripSpaces: "length (view (StripSpaces s)) \<le> length (view s)"
proof (cases "view s = []")
  case True
  then have "StripSpaces s = slice s 0 0" by (simp add: StripSpaces_def)
  then show ?thesis using view_slice [of 0 0 s] by simp
next
  case False
  then show ?thesis by (simp add: StripSpaces_view)
qed

lemma span_ok_StripSpaces [simp]: "span_ok (StripSpaces s)"
  by (simp add: StripSpaces_def Let_def)

function Strip :: "SpanString \<Rightarrow> SpanString" where
  "Strip input =
     (let s = StripSpaces input in
      if span_size s \<ge> 2 \<and> at s 0 = CHR ''('' \<and> at s (span_size s - 1) = CHR '')'' \<and>
         IsWhole (slice s 1 (span_size s - 1))
      then Strip (slice s 1 (span_size s - 1))
      else s)"
  by pat_completeness auto
termination
proof (relation "measure (\<lambda>s. length (view s))")
  show "wf (measure (\<lambda>s. length (view s)))" by simp
next
  fix input s
  assume s: "s = StripSpaces input" and
    c: "2 \<le> span_size s \<and> at s 0 = CHR ''('' \<and> at s (span_size s - 1) = CHR '')'' \<and>
        IsWhole (slice s 1 (span_size s - 1))"
  have ok: "span_ok s" by (simp add: s)
  then have n: "length (view s) = span_size s" by (rule length_view)
  with c have "view (slice s 1 (span_size s - 1)) = take (span_size s - 1 - 1) (drop 1 (view s))"
    by (intro view_slice) auto
  then have "length (view (slice s 1 (span_size s - 1))) < length (view s)"
    using c n by simp
  also have "\<dots> \<le> length (view input)"
    unfolding s by (rule length_view_StripSpaces)
  finally show "(slice s 1 (span_size s - 1), input) \<in> measure (\<lambda>s. length (view s))" by simp
qed

declare Strip.simps [simp del]


text \<open>The condition under which \<^verbatim>\<open>Strip\<close> peels a pair of parentheses.\<close>

definition peels :: "SpanString \<Rightarrow> bool" where
  "peels s =
     (span_size s \<ge> 2 \<and> at s 0 = CHR ''('' \<and> at s (span_size s - 1) = CHR '')'' \<and>
      IsWhole (slice s 1 (span_size s - 1)))"

text \<open>A span with no white space at either end.\<close>

definition trimmed :: "SpanString \<Rightarrow> bool" where
  "trimmed s = (span_ok s \<and> (view s = [] \<or> \<not> isspace (hd (view s)) \<and> \<not> isspace (last (view s))))"

lemma scan_left_stop: "scan_left v l < length v \<Longrightarrow> \<not> isspace (v ! scan_left v l)"
  by (induction v l rule: scan_left.induct) (subst scan_left.simps, subst (asm) scan_left.simps, auto)

lemma scan_right_stop: "left < scan_right v left right \<Longrightarrow> \<not> isspace (v ! scan_right v left right)"
  by (induction v left right rule: scan_right.induct)
    (subst scan_right.simps, subst (asm) scan_right.simps, auto)

lemma trimmed_StripSpaces: "trimmed (StripSpaces s)"
proof (cases "view s = []")
  case True
  then have "StripSpaces s = slice s 0 0" by (simp add: StripSpaces_def)
  then show ?thesis using view_slice [of 0 0 s] by (simp add: trimmed_def)
next
  case False
  let ?v = "view s"
  let ?l = "scan_left ?v 0"
  let ?r = "scan_right ?v ?l (length ?v - 1)"
  let ?v' = "take (?r + 1 - ?l) (drop ?l ?v)"
  have v': "view (StripSpaces s) = ?v'" using False by (rule StripSpaces_view)
  have r: "?r \<le> length ?v - 1" by (rule scan_right_le)
  have "\<not> isspace (hd ?v') \<and> \<not> isspace (last ?v')" if ne: "?v' \<noteq> []"
  proof -
    from ne have l: "?l < length ?v" "?l \<le> ?r" by auto
    from l(1) have a: "\<not> isspace (?v ! ?l)" by (rule scan_left_stop)
    have b: "\<not> isspace (?v ! ?r)"
    proof (cases "?l < ?r")
      case True
      then show ?thesis by (rule scan_right_stop)
    next
      case False
      with l(2) have "?r = ?l" by simp
      with a show ?thesis by simp
    qed
    from ne l r False have "hd ?v' = ?v ! ?l"
      by (simp add: hd_conv_nth)
    moreover have "last ?v' = ?v ! ?r"
    proof -
      from r False have rl: "?r + 1 \<le> length ?v" by (cases ?v) auto
      with l have n: "length ?v' = ?r + 1 - ?l" by simp
      from ne have "last ?v' = ?v' ! (length ?v' - 1)" by (rule last_conv_nth)
      also have "\<dots> = ?v' ! (?r - ?l)" using n l by simp
      also have "\<dots> = drop ?l ?v ! (?r - ?l)" using l by simp
      also have "\<dots> = ?v ! ?r" using l rl by simp
      finally show ?thesis .
    qed
    ultimately show ?thesis using a b by simp
  qed
  then show ?thesis unfolding trimmed_def v' by auto
qed

lemma scan_left_0: "v \<noteq> [] \<Longrightarrow> \<not> isspace (hd v) \<Longrightarrow> scan_left v 0 = 0"
  by (subst scan_left.simps) (simp add: hd_conv_nth)

lemma scan_right_last: "v \<noteq> [] \<Longrightarrow> \<not> isspace (last v) \<Longrightarrow> scan_right v 0 (length v - 1) = length v - 1"
  by (subst scan_right.simps) (simp add: last_conv_nth)

lemma StripSpaces_trimmed:
  assumes "trimmed s"
  shows "StripSpaces s = s"
proof (cases "view s = []")
  case True
  from assms have ok: "span_ok s" by (simp add: trimmed_def)
  with True have "start s = stop s" "stop s \<le> length (heritage s)"
    using length_view [OF ok] by (simp_all add: span_size_def span_ok_def)
  with True show ?thesis
    by (cases s) (simp add: StripSpaces_def slice_def SpanString3_def Let_def)
next
  case False
  from assms have ok: "span_ok s" by (simp add: trimmed_def)
  from assms False have "scan_left (view s) 0 = 0"
    "scan_right (view s) 0 (length (view s) - 1) = length (view s) - 1"
    using scan_left_0 [of "view s"] scan_right_last [of "view s"]
    by (simp_all add: trimmed_def)
  with False have "StripSpaces s = slice s 0 (length (view s))"
    by (simp add: StripSpaces_def Let_def)
  also have "\<dots> = s"
    using ok length_view [OF ok]
    by (cases s) (simp add: slice_def SpanString3_def span_ok_def span_size_def Let_def)
  finally show ?thesis .
qed

lemma Strip_unfold:
  "Strip input =
     (if peels (StripSpaces input)
      then Strip (slice (StripSpaces input) 1 (span_size (StripSpaces input) - 1))
      else StripSpaces input)"
  by (subst Strip.simps) (simp only: peels_def Let_def)

lemma Strip_result: "trimmed (Strip input) \<and> \<not> peels (Strip input)"
proof (induction input rule: Strip.induct)
  case (1 input)
  show ?case
  proof (cases "peels (StripSpaces input)")
    case True
    then have "Strip input = Strip (slice (StripSpaces input) 1 (span_size (StripSpaces input) - 1))"
      by (subst Strip_unfold) simp
    moreover from True have "2 \<le> span_size (StripSpaces input) \<and>
        at (StripSpaces input) 0 = CHR ''('' \<and>
        at (StripSpaces input) (span_size (StripSpaces input) - 1) = CHR '')'' \<and>
        IsWhole (slice (StripSpaces input) 1 (span_size (StripSpaces input) - 1))"
      by (simp only: peels_def)
    ultimately show ?thesis using "1.IH" [OF refl] by simp
  next
    case False
    then have "Strip input = StripSpaces input"
      by (subst Strip_unfold) simp
    with False show ?thesis by (simp add: trimmed_StripSpaces)
  qed
qed

text \<open>
  Claim C6: \<^verbatim>\<open>Strip\<close> is idempotent. \<^verbatim>\<open>Strip\<close> trims white space and peels one outer pair
  of parentheses around a whole span, until neither applies; its result is a span on which
  neither applies, so a second \<^verbatim>\<open>Strip\<close> returns it unchanged (the same range of the same
  text).
\<close>

theorem Strip_idempotent: "Strip (Strip s) = Strip s"
proof -
  from Strip_result [of s] have "StripSpaces (Strip s) = Strip s" "\<not> peels (Strip s)"
    by (simp_all add: StripSpaces_trimmed)
  then show ?thesis
    by (subst Strip_unfold) simp
qed

lemma Strip_example:
  "Strip (SpanString1 '' ((a)) '') = \<lparr>heritage = '' ((a)) '', start = 3, stop = 4\<rparr>"
  by code_simp

theorem Strip_idempotent_witness:
  "Strip (SpanString1 '' ((a)) '') = \<lparr>heritage = '' ((a)) '', start = 3, stop = 4\<rparr> \<and>
   Strip (Strip (SpanString1 '' ((a)) '')) = Strip (SpanString1 '' ((a)) '')"
  using Strip_idempotent [of "SpanString1 '' ((a)) ''"] Strip_example by simp

text \<open>
  \<^verbatim>\<open>SplitRaw\<close>. After a separator of length \<open>l\<close> is found, the traverser is advanced
  \<open>l - 1\<close> more steps; a traverser that has reached the end yields no step any more.
\<close>

fun skip_steps :: "string \<Rightarrow> nat \<Rightarrow> Traverser \<Rightarrow> Traverser" where
  "skip_steps v 0 t = t"
| "skip_steps v (Suc k) t =
     (case Next v t of
        None \<Rightarrow> (length v, snd t)
      | Some (step, t') \<Rightarrow> skip_steps v k t')"

definition separator_at :: "string \<Rightarrow> string \<Rightarrow> nat \<Rightarrow> bool" where
  "separator_at v separator i =
     (let l = length separator in
      i + l \<le> length v \<and> take l (drop i v) = separator \<and>
      \<not> (l = 1 \<and> separator ! 0 = CHR ''|'' \<and> i + 1 < length v \<and> v ! (i + 1) = CHR ''|'') \<and>
      \<not> (l = 1 \<and> separator ! 0 = CHR ''|'' \<and> i > 0 \<and> v ! (i - 1) = CHR ''|'') \<and>
      \<not> (list_all isalnum separator \<and>
         ((i > 0 \<and> isalnum (v ! (i - 1))) \<or> (i + l < length v \<and> isalnum (v ! (i + l))))))"

function SplitRaw_loop ::
  "SpanString \<Rightarrow> string \<Rightarrow> Traverser \<Rightarrow> nat \<Rightarrow> SpanString list \<Rightarrow> error + SpanString list" where
  "SplitRaw_loop s separator t part_start parts =
     (case Next (view s) t of
        None \<Rightarrow> Inr (parts @ [slice s part_start (span_size s)])
      | Some (step, t') \<Rightarrow>
          if status step \<noteq> OK then
            Inl (ParsingException ''Parenthesis matches nothing.'' (slice s (idx step) (idx step + 1)))
          else if state step \<noteq> [] then SplitRaw_loop s separator t' part_start parts
          else if separator_at (view s) separator (idx step) then
            SplitRaw_loop s separator (skip_steps (view s) (length separator - 1) t')
              (idx step + length separator) (parts @ [slice s part_start (idx step)])
          else SplitRaw_loop s separator t' part_start parts)"
  by pat_completeness auto

lemma Next_fst:
  "Next v t = Some (step, t') \<Longrightarrow> fst t \<le> idx step \<and> fst t' = idx step + 1 \<and> idx step < length v"
  using Next_pos [of v "fst t" "snd t" step "fst t'" "snd t'"] by simp

lemma skip_steps_ge: "fst t \<le> length v \<Longrightarrow> fst t \<le> fst (skip_steps v k t) \<and> fst (skip_steps v k t) \<le> length v"
proof (induction k arbitrary: t)
  case 0
  then show ?case by simp
next
  case (Suc k)
  show ?case
  proof (cases "Next v t")
    case None
    then show ?thesis using Suc.prems by simp
  next
    case (Some a)
    obtain step t' where a: "a = (step, t')" by (cases a)
    from Next_fst [OF Some [unfolded a]] Suc.IH [of t'] Some a
    show ?thesis by auto
  qed
qed

lemma skip_steps_advance:
  "fst t \<le> length v \<Longrightarrow> min (fst t + k) (length v) \<le> fst (skip_steps v k t)"
proof (induction k arbitrary: t)
  case 0
  then show ?case by simp
next
  case (Suc k)
  show ?case
  proof (cases "Next v t")
    case None
    then show ?thesis by simp
  next
    case (Some a)
    obtain step t' where a: "a = (step, t')" by (cases a)
    from Next_fst [OF Some [unfolded a]] Suc.IH [of t'] Some a
    show ?thesis by (auto simp: min_def split: if_splits)
  qed
qed

termination SplitRaw_loop
proof (relation "measure (\<lambda>(s, separator, t, part_start, parts). length (view s) - fst t)")
  show "wf (measure (\<lambda>(s, separator, t, part_start, parts). length (view s) - fst t))" by simp
next
  fix s :: SpanString and separator :: string and t :: Traverser and part_start :: nat
    and parts :: "SpanString list" and x2 step t'
  assume "Next (view s) t = Some x2" "(step, t') = x2"
  then have n: "Next (view s) t = Some (step, t')" by simp
  from Next_fst [OF n]
  show "((s, separator, t', part_start, parts), (s, separator, t, part_start, parts))
        \<in> measure (\<lambda>(s, separator, t, part_start, parts). length (view s) - fst t)"
    by auto
  from Next_fst [OF n] skip_steps_ge [of t' "view s" "length separator - 1"]
  show "((s, separator, skip_steps (view s) (length separator - 1) t', idx step + length separator,
          parts @ [slice s part_start (idx step)]), (s, separator, t, part_start, parts))
        \<in> measure (\<lambda>(s, separator, t, part_start, parts). length (view s) - fst t)"
    by auto
  from Next_fst [OF n]
  show "((s, separator, t', part_start, parts), (s, separator, t, part_start, parts))
        \<in> measure (\<lambda>(s, separator, t, part_start, parts). length (view s) - fst t)"
    by auto
qed

declare SplitRaw_loop.simps [simp del]

definition SplitRaw :: "SpanString \<Rightarrow> string \<Rightarrow> error + SpanString list" where
  "SplitRaw s separator =
     (if length separator = 0 then Inr [s]
      else SplitRaw_loop s separator (0, []) 0 [])"

definition Split :: "SpanString \<Rightarrow> string \<Rightarrow> error + SpanString list" where
  "Split s separator = bindE (SplitRaw s separator) (\<lambda>raw. Inr (map Strip raw))"

text \<open>The parts joined again, the separator between them.\<close>

fun join :: "string \<Rightarrow> string list \<Rightarrow> string" where
  "join separator [] = []"
| "join separator [x] = x"
| "join separator (x # y # ys) = x @ separator @ join separator (y # ys)"

lemma join_Cons: "ys \<noteq> [] \<Longrightarrow> join separator (x # ys) = x @ separator @ join separator ys"
  by (cases ys) simp_all

lemma SplitRaw_loop_partition:
  assumes "span_ok s" "separator \<noteq> []"
    and "part_start \<le> fst t" "fst t \<le> length (view s)"
    and "SplitRaw_loop s separator t part_start parts = Inr result"
  shows "\<exists>new. result = parts @ new \<and> new \<noteq> [] \<and>
           join separator (map view new) = drop part_start (view s)"
  using assms
proof (induction s separator t part_start parts rule: SplitRaw_loop.induct)
  case (1 s separator t part_start parts)
  note ok = "1.prems"(1) and sne = "1.prems"(2)
  let ?v = "view s"
  have size: "span_size s = length ?v" using length_view [OF ok] by simp
  show ?case
  proof (cases "Next ?v t")
    case None
    with "1.prems"(5) have r: "result = parts @ [slice s part_start (span_size s)]"
      by (subst (asm) SplitRaw_loop.simps) simp
    have "view (slice s part_start (span_size s)) = take (span_size s - part_start) (drop part_start ?v)"
      using "1.prems"(3,4) size by (intro view_slice) auto
    then have "view (slice s part_start (span_size s)) = drop part_start ?v"
      by (simp add: size)
    with r show ?thesis by simp
  next
    case (Some a)
    obtain step t' where a: "a = (step, t')" by (cases a)
    note n = Some [unfolded a]
    note pos = Next_fst [OF n]
    from "1.prems"(5) n have st: "status step = OK"
      by (subst (asm) SplitRaw_loop.simps) (auto split: if_splits)
    show ?thesis
    proof (cases "state step = [] \<and> separator_at ?v separator (idx step)")
      case False
      with "1.prems"(5) n st have r: "SplitRaw_loop s separator t' part_start parts = Inr result"
        by (subst (asm) SplitRaw_loop.simps) (auto split: if_splits)
      have p: "part_start \<le> fst t'" "fst t' \<le> length ?v"
        using pos "1.prems"(3) by auto
      show ?thesis
      proof (cases "state step = []")
        case True
        with False have ns: "\<not> separator_at ?v separator (idx step)" by simp
        have a1: "\<not> status step \<noteq> OK" using st by simp
        have a2: "\<not> state step \<noteq> []" using True by simp
        from "1.IH"(3) [OF n refl a1 a2 ns ok sne p r] show ?thesis .
      next
        case ne: False
        have "\<not> status step \<noteq> OK" using st by simp
        from "1.IH"(1) [OF n refl this ne ok sne p r] show ?thesis .
      qed
    next
      case True
      let ?i = "idx step"
      let ?l = "length separator"
      let ?t = "skip_steps ?v (?l - 1) t'"
      let ?p = "slice s part_start ?i"
      from True have sep: "?i + ?l \<le> length ?v" "take ?l (drop ?i ?v) = separator"
        by (simp_all add: separator_at_def Let_def)
      from "1.prems"(5) n st True
      have r: "SplitRaw_loop s separator ?t (?i + ?l) (parts @ [?p]) = Inr result"
        by (subst (asm) SplitRaw_loop.simps) (auto split: if_splits)
      have t'le: "fst t' \<le> length ?v" using pos by simp
      have l1: "1 \<le> ?l" using sne by (cases separator) auto
      from skip_steps_advance [OF t'le, of "?l - 1"] pos sep(1) l1
      have p1: "?i + ?l \<le> fst ?t" by (simp add: min_def split: if_splits)
      have p2: "fst ?t \<le> length ?v" using skip_steps_ge [OF t'le] by simp
      have a1: "\<not> status step \<noteq> OK" using st by simp
      have a2: "\<not> state step \<noteq> []" using True by simp
      from "1.IH"(2) [OF n refl a1 a2 _ ok sne p1 p2 r] True
      obtain new where new: "result = (parts @ [?p]) @ new" "new \<noteq> []"
        "join separator (map view new) = drop (?i + ?l) ?v"
        by blast
      have ps: "part_start \<le> ?i" using "1.prems"(3) pos by simp
      have "view ?p = take (?i - part_start) (drop part_start ?v)"
        using ps pos by (intro view_slice) auto
      then have "join separator (map view (?p # new))
          = take (?i - part_start) (drop part_start ?v) @ take ?l (drop ?i ?v) @ drop (?i + ?l) ?v"
        using new(2,3) sep(2) by (simp add: join_Cons)
      also have "take ?l (drop ?i ?v) @ drop (?i + ?l) ?v = drop ?i ?v"
        by (metis add.commute append_take_drop_id drop_drop)
      also have "take (?i - part_start) (drop part_start ?v) @ drop ?i ?v = drop part_start ?v"
        using ps by (metis add.commute append_take_drop_id drop_drop le_add_diff_inverse)
      finally have "join separator (map view (?p # new)) = drop part_start ?v" .
      with new(1) show ?thesis by (intro exI [of _ "?p # new"]) simp
    qed
  qed
qed

lemma SplitRaw_partition:
  assumes "span_ok s" "SplitRaw s separator = Inr raw"
  shows "join separator (map view raw) = view s"
proof (cases "separator = []")
  case True
  with assms(2) show ?thesis by (auto simp: SplitRaw_def)
next
  case False
  with assms(2) have "SplitRaw_loop s separator (0, []) 0 [] = Inr raw"
    by (simp add: SplitRaw_def)
  from SplitRaw_loop_partition [OF assms(1) False _ _ this]
  show ?thesis by auto
qed


lemma Split_example:
  "Split (SpanString1 ''a, (b, c) ,d'') '','' =
     Inr [\<lparr>heritage = ''a, (b, c) ,d'', start = 0, stop = 1\<rparr>,
          \<lparr>heritage = ''a, (b, c) ,d'', start = 4, stop = 8\<rparr>,
          \<lparr>heritage = ''a, (b, c) ,d'', start = 11, stop = 12\<rparr>]"
  by code_simp

lemma SplitRaw_example:
  "SplitRaw (SpanString1 ''a, (b, c) ,d'') '','' =
     Inr [\<lparr>heritage = ''a, (b, c) ,d'', start = 0, stop = 1\<rparr>,
          \<lparr>heritage = ''a, (b, c) ,d'', start = 2, stop = 10\<rparr>,
          \<lparr>heritage = ''a, (b, c) ,d'', start = 11, stop = 12\<rparr>]"
  by code_simp


subsection \<open>Further splits\<close>

definition throw :: "string \<Rightarrow> SpanString \<Rightarrow> error + 'a" where
  "throw message location = Inl (ParsingException message location)"

definition SplitInTwo :: "SpanString \<Rightarrow> string \<Rightarrow> error + SpanString \<times> SpanString" where
  "SplitInTwo s separator =
     bindE (Split s separator) (\<lambda>parts.
     if length parts \<noteq> 2 then
       throw (''I expected string to be split by '' @ separator @ '' in two.'') s
     else Inr (parts ! 0, parts ! 1))"

text \<open>
  \<^verbatim>\<open>SplitInOneOrTwo\<close> returns a pair of optionals of which one is set; every caller reads
  the second only, so the model returns the only part as \<open>Inl\<close>, the two parts as \<open>Inr\<close>.
\<close>

definition SplitInOneOrTwo ::
  "SpanString \<Rightarrow> string \<Rightarrow> error + (SpanString + SpanString \<times> SpanString)" where
  "SplitInOneOrTwo s separator =
     bindE (Split s separator) (\<lambda>parts.
     if length parts = 1 then Inr (Inl (parts ! 0))
     else if length parts = 2 then Inr (Inr (parts ! 0, parts ! 1))
     else throw (''String should have been split by '' @ separator @ '' in 1 or 2 pieces.'') s)"

definition SplitOnWhitespace :: "SpanString \<Rightarrow> error + SpanString list" where
  "SplitOnWhitespace s =
     bindE (mapE (\<lambda>chunk. Split chunk '' '') [s]) (\<lambda>out1.
     bindE (mapE (\<lambda>chunk. Split chunk ''\<newline>'') (concat out1)) (\<lambda>out2.
     bindE (mapE (\<lambda>chunk. Split chunk [CHR 0x09]) (concat out2)) (\<lambda>out3.
     Inr (filter (\<lambda>chunk. \<not> span_empty chunk) (concat out3)))))"

subsection \<open>Incantations\<close>

fun is_prefix :: "string \<Rightarrow> string \<Rightarrow> bool" where
  "is_prefix [] ys = True"
| "is_prefix (x # xs) [] = False"
| "is_prefix (x # xs) (y # ys) = (x = y \<and> is_prefix xs ys)"

text \<open>\<^verbatim>\<open>code.find(needle) != npos\<close>.\<close>

fun contains :: "string \<Rightarrow> string \<Rightarrow> bool" where
  "contains [] needle = (needle = [])"
| "contains (c # code) needle = (is_prefix needle (c # code) \<or> contains code needle)"

text \<open>The global \<^verbatim>\<open>TOO_MUCH\<close> is \<^verbatim>\<open>"fun"\<close> or not: a flag, passed to the parsers.\<close>

definition EnactIncantations :: "string \<Rightarrow> bool \<Rightarrow> bool" where
  "EnactIncantations code too_much =
     (if contains code ''Signa inter verba conjugo, symbolum infixus evoco!'' then True
      else too_much)"

definition FunctorSyntaxErrorMessage :: string where
  "FunctorSyntaxErrorMessage =
     ''Incorrect syntax for functor call. Functor call to be made as\<newline>'' @
     ''  R := F(A: V, ...)\<newline>'' @
     ''or\<newline>'' @
     ''  @Make(R, F, {A: V, ...})\<newline>'' @
     ''Where R, F, A's and V's are all predicate names.''"

subsection \<open>Literals and variables\<close>

definition IsVariableChars :: "SpanString \<Rightarrow> bool" where
  "IsVariableChars s = list_all (\<lambda>c. islower c \<or> isdigit c \<or> c = CHR ''_'') (view s)"

definition ParseVariable :: "SpanString \<Rightarrow> error + Json option" where
  "ParseVariable s =
     (if span_empty s then Inr None
      else if \<not> (islower (at s 0) \<or> at s 0 = CHR ''_'') then Inr None
      else if \<not> IsVariableChars s then Inr None
      else if starts_with s ''x_'' then
        throw ''Variables starting with x_ are reserved to be Logica compiler internal. Please use a different name.'' s
      else Inr (Some (JObject [(''var_name'', JString (str s))])))"

text \<open>
  \<^verbatim>\<open>ParseNumber\<close> calls the C library's \<^verbatim>\<open>strtod\<close> on \<^verbatim>\<open>text.c_str()\<close>, the text up to
  its first zero byte. The library is not part of the repository: the model takes it as the
  parameter \<open>strtod\<close>, which gives the number of characters converted (\<^verbatim>\<open>end - text.c_str()\<close>)
  and whether \<^verbatim>\<open>errno\<close> was set.

  The literal the source compares with is the six bytes \<^verbatim>\<open>C3 A2 CB 86 C5 BE\<close>, as they stand
  in the source file.
\<close>

definition infinity_literal :: string where
  "infinity_literal = [CHR 0xC3, CHR 0xA2, CHR 0xCB, CHR 0x86, CHR 0xC5, CHR 0xBE]"

definition c_str :: "string \<Rightarrow> string" where
  "c_str text = takeWhile (\<lambda>c. c \<noteq> CHR 0x00) text"

definition number_node :: "string \<Rightarrow> Json" where
  "number_node text = JObject [(''number'', JString text)]"

definition ParseNumber :: "(string \<Rightarrow> nat \<times> bool) \<Rightarrow> SpanString \<Rightarrow> Json option" where
  "ParseNumber strtod s0 =
     (let s = (if ends_with s0 ''u'' then slice s0 0 (span_size s0 - 1) else s0) in
      if str s = infinity_literal then Some (number_node ''-1'')
      else
        let text = str s;
            (end_offset, errno) = strtod (c_str text)
        in if errno \<or> end_offset = 0 \<or> end_offset \<noteq> length (c_str text) then None
           else Some (number_node text))"

text \<open>\<^verbatim>\<open>ParsePythonStyleStringLiteral\<close>: the escapes of a single-quoted string.\<close>

definition hex :: "char \<Rightarrow> nat option" where
  "hex h =
     (if CHR ''0'' \<le> h \<and> h \<le> CHR ''9'' then Some (of_char h - of_char (CHR ''0''))
      else if CHR ''a'' \<le> h \<and> h \<le> CHR ''f'' then Some (10 + (of_char h - of_char (CHR ''a'')))
      else if CHR ''A'' \<le> h \<and> h \<le> CHR ''F'' then Some (10 + (of_char h - of_char (CHR ''A'')))
      else None)"

text \<open>The digits \<open>v[i + 1] .. v[i + n]\<close> as a number, when all are hexadecimal.\<close>

fun hex_code :: "string \<Rightarrow> nat \<Rightarrow> nat \<Rightarrow> nat \<Rightarrow> nat option" where
  "hex_code v i 0 code = Some code"
| "hex_code v i (Suc k) code =
     (case hex (v ! (i + 1)) of
        None \<Rightarrow> None
      | Some d \<Rightarrow> hex_code v (i + 1) k (code * 16 + d))"

definition append_utf8 :: "nat \<Rightarrow> string" where
  "append_utf8 code =
     (if code \<le> 0x7F then [char_of code]
      else if code \<le> 0x7FF then
        [char_of (0xC0 + (code div 64) mod 32), char_of (0x80 + code mod 64)]
      else if code \<le> 0xFFFF then
        [char_of (0xE0 + (code div 4096) mod 16), char_of (0x80 + (code div 64) mod 64),
         char_of (0x80 + code mod 64)]
      else
        [char_of (0xF0 + (code div 262144) mod 8), char_of (0x80 + (code div 4096) mod 64),
         char_of (0x80 + (code div 64) mod 64), char_of (0x80 + code mod 64)])"

function unescape :: "string \<Rightarrow> nat \<Rightarrow> string \<Rightarrow> string" where
  "unescape v i out =
     (if \<not> i + 1 < length v then out
      else
        let c = v ! i in
        if c \<noteq> CHR 0x5C then unescape v (i + 1) (out @ [c])
        else if i + 1 \<ge> length v - 1 then unescape v (i + 1) (out @ [CHR 0x5C])
        else
          let n = v ! (i + 1); j = i + 1 in
          if n = CHR 0x5C then unescape v (j + 1) (out @ [CHR 0x5C])
          else if n = CHR ''n'' then unescape v (j + 1) (out @ [CHR 0x0A])
          else if n = CHR ''r'' then unescape v (j + 1) (out @ [CHR 0x0D])
          else if n = CHR ''t'' then unescape v (j + 1) (out @ [CHR 0x09])
          else if n = CHR 0x27 then unescape v (j + 1) (out @ [CHR 0x27])
          else if n = CHR 0x22 then unescape v (j + 1) (out @ [CHR 0x22])
          else if n = CHR ''x'' then
            (if j + 2 < length v - 1 then
               (case hex_code v j 2 0 of
                  Some code \<Rightarrow> unescape v (j + 2 + 1) (out @ [char_of code])
                | None \<Rightarrow> unescape v (j + 1) out)
             else unescape v (j + 1) out)
          else if n = CHR ''u'' then
            (if j + 4 < length v - 1 then
               (case hex_code v j 4 0 of
                  Some code \<Rightarrow> unescape v (j + 4 + 1) (out @ append_utf8 code)
                | None \<Rightarrow> unescape v (j + 1) out)
             else unescape v (j + 1) out)
          else if n = CHR ''U'' then
            (if j + 8 < length v - 1 then
               (case hex_code v j 8 0 of
                  Some code \<Rightarrow> unescape v (j + 8 + 1) (out @ append_utf8 code)
                | None \<Rightarrow> unescape v (j + 1) out)
             else unescape v (j + 1) out)
          else unescape v (j + 1) (out @ [n]))"
  by pat_completeness auto
termination
  by (relation "measure (\<lambda>(v, i, out). length v - i)") auto

declare unescape.simps [simp del]

definition ParsePythonStyleStringLiteral :: "SpanString \<Rightarrow> string" where
  "ParsePythonStyleStringLiteral s = (if length (view s) < 2 then [] else unescape (view s) 1 [])"

text \<open>The loop of \<^verbatim>\<open>ParseString\<close> over a single-quoted string: is a quote left unescaped?\<close>

fun broke :: "bool \<Rightarrow> string \<Rightarrow> bool" where
  "broke screen [] = False"
| "broke screen (c # meat) =
     (if screen then broke False meat
      else if c = CHR 0x27 then True
      else if c = CHR 0x5C then broke True meat
      else broke screen meat)"

definition string_node :: "string \<Rightarrow> Json" where
  "string_node text = JObject [(''the_string'', JString text)]"

definition ParseString :: "SpanString \<Rightarrow> Json option" where
  "ParseString s =
     (let v = view s; n = length v in
      if n \<ge> 2 \<and> hd v = CHR 0x22 \<and> last v = CHR 0x22 \<and>
         CHR 0x22 \<notin> set (take (n - 2) (drop 1 v))
      then Some (string_node (take (n - 2) (drop 1 v)))
      else if n \<ge> 2 \<and> hd v = CHR 0x27 \<and> last v = CHR 0x27 \<and>
         \<not> broke False (take (n - 2) (drop 1 v))
      then Some (string_node (ParsePythonStyleStringLiteral s))
      else if n \<ge> 6 \<and> take 3 v = triple_quote \<and> drop (n - 3) v = triple_quote \<and>
         \<not> contains (take (n - 6) (drop 3 v)) triple_quote
      then Some (string_node (take (n - 6) (drop 3 v)))
      else None)"

definition ParseBoolean :: "SpanString \<Rightarrow> Json option" where
  "ParseBoolean s =
     (if str s = ''true'' \<or> str s = ''false'' then Some (JObject [(''the_bool'', JString (str s))])
      else None)"

definition ParseNull :: "SpanString \<Rightarrow> Json option" where
  "ParseNull s = (if str s = ''null'' then Some (JObject [(''the_null'', JString ''null'')]) else None)"

definition ParsePredicateLiteral :: "SpanString \<Rightarrow> Json option" where
  "ParsePredicateLiteral s =
     (let text = str s in
      if text = ''++?'' \<or> text = ''nil'' then Some (JObject [(''predicate_name'', JString text)])
      else if text = [] then None
      else if \<not> isupper (hd text) then None
      else if \<not> list_all (\<lambda>c. isalpha c \<or> isdigit c \<or> c = CHR ''_'') text then None
      else Some (JObject [(''predicate_name'', JString text)]))"


subsection \<open>The tree of a negation\<close>

text \<open>\<^verbatim>\<open>NegationTree\<close>: \<^verbatim>\<open>IsNull(Combine{Min= 1 :- negated_proposition})\<close>.\<close>

definition number_one :: Json where
  "number_one = JObject [(''literal'', JObject [(''the_number'', JObject [(''number'', JString ''1'')])])]"

definition NegationTree :: "SpanString \<Rightarrow> Json \<Rightarrow> Json" where
  "NegationTree s negated_proposition =
     JObject [(''predicate'',
       JObject [(''predicate_name'', JString ''IsNull''),
                (''record'', JObject [(''field_value'',
                   JArray [JObject [(''field'', JInt 0),
                     (''value'', JObject [(''expression'', JObject [(''combine'',
                        JObject [(''body'', negated_proposition),
                                 (''distinct_denoted'', JBool True),
                                 (''full_text'', JString (str s)),
                                 (''head'',
                                    JObject [(''predicate_name'', JString ''Combine''),
                                             (''record'', JObject [(''field_value'',
                                                JArray [JObject [(''field'', JString ''logica_value''),
                                                  (''value'', JObject [(''aggregation'',
                                                     JObject [(''argument'', number_one),
                                                              (''expression_heritage'', JString (str s)),
                                                              (''operator'', JString ''Min'')])])]])])])])])])]])])])]"

definition conjunction_node :: "Json list \<Rightarrow> Json" where
  "conjunction_node cjs = JObject [(''conjunction'', JObject [(''conjunct'', JArray cjs)])]"


section \<open>The recursive-descent parser\<close>

text \<open>
  \<^verbatim>\<open>ParseExpression\<close> and \<^verbatim>\<open>ParseProposition\<close> call each other through every other
  parsing function. Each function below takes the two as fields of \<open>P\<close>, with the flag
  \<^verbatim>\<open>TOO_MUCH\<close> and the C library's \<^verbatim>\<open>strtod\<close>; the recursion is closed at the end. What
  is proved of a function for every \<open>P\<close> holds of the parser.

  A function that returns \<^verbatim>\<open>std::optional<Json>\<close> returns \<open>error + Json option\<close>.
\<close>

record Parsers =
  TOO_MUCH :: bool
  strtod :: "string \<Rightarrow> nat \<times> bool"
  ParseExpression :: "SpanString \<Rightarrow> error + Json"
  ParseProposition :: "SpanString \<Rightarrow> error + Json"

text \<open>\<^verbatim>\<open>if (auto v = m) return f(*v);\<close> followed by the rest \<open>g\<close> of the function.\<close>

definition attempt ::
  "error + 'a option \<Rightarrow> ('a \<Rightarrow> error + 'b) \<Rightarrow> (error + 'b) \<Rightarrow> error + 'b" where
  "attempt m f g = (case m of Inl e \<Rightarrow> Inl e | Inr None \<Rightarrow> g | Inr (Some v) \<Rightarrow> f v)"

lemma attempt_cong [cong]: "m = m' \<Longrightarrow> attempt m f g = attempt m' f g"
  by simp

lemma attempt_simps [simp]:
  "attempt (Inl e) f g = Inl e" "attempt (Inr None) f g = g" "attempt (Inr (Some v)) f g = f v"
  by (simp_all add: attempt_def)

lemma bindE_weak_cong [cong]: "m = m' \<Longrightarrow> bindE m f = bindE m' f"
  by simp

function to_string :: "nat \<Rightarrow> string" where
  "to_string n =
     (if n < 10 then [char_of (of_char (CHR ''0'') + n)]
      else to_string (n div 10) @ [char_of (of_char (CHR ''0'') + n mod 10)])"
  by pat_completeness auto
termination
  by (relation "measure id") auto

declare to_string.simps [simp del]

definition expression_value :: "Json \<Rightarrow> Json" where
  "expression_value e = JObject [(''expression'', e)]"

definition field_value :: "Json \<Rightarrow> Json \<Rightarrow> Json" where
  "field_value field v = JObject [(''field'', field), (''value'', v)]"

definition record_node :: "Json list \<Rightarrow> Json" where
  "record_node fvs = JObject [(''field_value'', JArray fvs)]"

definition call_node :: "string \<Rightarrow> Json \<Rightarrow> Json" where
  "call_node predicate args = JObject [(''predicate_name'', JString predicate), (''record'', args)]"

definition aggregation_node :: "string \<Rightarrow> Json \<Rightarrow> string \<Rightarrow> Json" where
  "aggregation_node op argument h =
     JObject [(''aggregation'',
       JObject [(''argument'', argument), (''expression_heritage'', JString h),
                (''operator'', JString op)])]"

subsection \<open>Record internals\<close>

text \<open>The state of the loop of \<^verbatim>\<open>ParseRecordInternals\<close> over the entries.\<close>

record RecordLoop =
  had_restof :: bool
  positional_ok :: bool
  observed_fields :: "string list"
  result :: "Json list"

definition record_entry ::
  "Parsers \<Rightarrow> bool \<Rightarrow> bool \<Rightarrow> RecordLoop \<Rightarrow> nat \<times> SpanString \<Rightarrow> error + RecordLoop" where
  "record_entry P is_record_literal is_aggregation_allowed st entry =
     (let index = fst entry; fv = snd entry in
      if had_restof st then throw ''Field ..<rest_of> must go last.'' fv
      else if starts_with fv ''..'' then
        (if is_record_literal then
           throw ''Field ..<rest_of> in record literals is not currently suppported.'' fv
         else
           bindE (ParseExpression P (slice_from fv 2)) (\<lambda>e.
           Inr (st\<lparr>result := result st @
                    [if observed_fields st \<noteq> [] then
                       JObject [(''except'', JArray (map JString (observed_fields st))),
                                (''field'', JString ''*''), (''value'', expression_value e)]
                     else field_value (JString ''*'') (expression_value e)],
                  had_restof := True, positional_ok := False\<rparr>)))
      else
        bindE (SplitInOneOrTwo fv '':'') (\<lambda>colon_split.
        case colon_split of
          Inr (field, value0) \<Rightarrow>
            let value = (if span_empty value0 then field else value0) in
            if span_empty value0 \<and> \<not> span_empty field \<and> isupper (at field 0) then
              throw ''Record fields may not start with capital letter.'' field
            else if span_empty value0 \<and> \<not> span_empty field \<and> at field 0 = CHR 0x60 then
              throw ''Backticks in variable names are disallowed.'' field
            else
              bindE (ParseExpression P value) (\<lambda>e.
              Inr (st\<lparr>result := result st @ [field_value (JString (str field)) (expression_value e)],
                     positional_ok := False,
                     observed_fields := observed_fields st @ [str field]\<rparr>))
        | Inl one \<Rightarrow>
            bindE (SplitInOneOrTwo fv ''?'') (\<lambda>qsplit.
            case qsplit of
              Inr (field, value) \<Rightarrow>
                if \<not> is_aggregation_allowed then
                  throw ''Aggregation of fields is only allowed in the head of a rule.'' fv
                else if span_empty field then throw ''Aggregated fields have to be named.'' fv
                else
                  bindE (SplitInTwo value ''='') (\<lambda>op_expr.
                  bindE (ParseExpression P (snd op_expr)) (\<lambda>argument.
                  Inr (st\<lparr>result := result st @
                           [field_value (JString (str field))
                              (aggregation_node (str (Strip (fst op_expr))) argument (str value))],
                         positional_ok := False,
                         observed_fields := observed_fields st @ [str field]\<rparr>)))
            | Inl qone \<Rightarrow>
                if positional_ok st then
                  bindE (ParseExpression P fv) (\<lambda>e.
                  Inr (st\<lparr>result := result st @ [field_value (JInt (int index)) (expression_value e)],
                         observed_fields := observed_fields st @ [''col'' @ to_string index]\<rparr>))
                else
                  throw ''Positional argument can not go after non-positional arguments.'' fv)))"

fun foldE :: "('s \<Rightarrow> 'a \<Rightarrow> error + 's) \<Rightarrow> 's \<Rightarrow> 'a list \<Rightarrow> error + 's" where
  "foldE f st [] = Inr st"
| "foldE f st (x # xs) = bindE (f st x) (\<lambda>st'. foldE f st' xs)"

definition ParseRecordInternals :: "Parsers \<Rightarrow> SpanString \<Rightarrow> bool \<Rightarrow> bool \<Rightarrow> error + Json" where
  "ParseRecordInternals P input is_record_literal is_aggregation_allowed =
     (let s = Strip input in
      bindE (Split s '':-'') (\<lambda>arrow.
      if length arrow > 1 then throw ''Unexpected :- in record internals.'' s
      else if span_empty s then Inr (record_node [])
      else if IsWhole s then
        bindE (Split s '','') (\<lambda>field_values.
        bindE (foldE (record_entry P is_record_literal is_aggregation_allowed)
                 \<lparr>had_restof = False, positional_ok = True, observed_fields = [], result = []\<rparr>
                 (zip [0..<length field_values] field_values)) (\<lambda>st.
        Inr (record_node (result st))))
      else Inr (record_node [])))"

definition ParseRecord :: "Parsers \<Rightarrow> SpanString \<Rightarrow> error + Json option" where
  "ParseRecord P input =
     (let s = Strip input in
      if span_size s \<ge> 2 \<and> at s 0 = CHR ''{'' \<and> at s (span_size s - 1) = CHR ''}'' \<and>
         IsWhole (slice s 1 (span_size s - 1))
      then bindE (ParseRecordInternals P (slice s 1 (span_size s - 1)) True False) (\<lambda>r. Inr (Some r))
      else Inr None)"

subsection \<open>Literals\<close>

definition ParseList :: "Parsers \<Rightarrow> SpanString \<Rightarrow> error + Json option" where
  "ParseList P s =
     (if span_size s \<ge> 2 \<and> at s 0 = CHR ''['' \<and> at s (span_size s - 1) = CHR '']'' \<and>
         IsWhole (slice s 1 (span_size s - 1))
      then
        let inside = Strip (slice s 1 (span_size s - 1)) in
        if \<not> span_empty inside then
          bindE (Split inside '','') (\<lambda>elements_str.
          bindE (mapE (ParseExpression P) elements_str) (\<lambda>elements.
          Inr (Some (JObject [(''element'', JArray elements)]))))
        else Inr (Some (JObject [(''element'', JArray [])]))
      else Inr None)"

definition ParseLiteral :: "Parsers \<Rightarrow> SpanString \<Rightarrow> error + Json option" where
  "ParseLiteral P s =
     attempt (Inr (ParseNumber (strtod P) s)) (\<lambda>v. Inr (Some (JObject [(''the_number'', v)])))
    (attempt (Inr (ParseString s)) (\<lambda>v. Inr (Some (JObject [(''the_string'', v)])))
    (attempt (ParseList P s) (\<lambda>v. Inr (Some (JObject [(''the_list'', v)])))
    (attempt (Inr (ParseBoolean s)) (\<lambda>v. Inr (Some (JObject [(''the_bool'', v)])))
    (attempt (Inr (ParseNull s)) (\<lambda>v. Inr (Some (JObject [(''the_null'', v)])))
    (attempt (Inr (ParsePredicateLiteral s)) (\<lambda>v. Inr (Some (JObject [(''the_predicate'', v)])))
    (Inr None))))))"


subsection \<open>Calls and infix operators\<close>

definition good_chars :: "bool \<Rightarrow> char \<Rightarrow> bool" where
  "good_chars too_much c =
     (islower c \<or> isupper c \<or> isdigit c \<or> c \<in> set ''@_.${}+-`'' \<or>
      (too_much \<and> (c \<in> set ''*^%/'' \<or> c = CHR 0x00)))"

text \<open>The loop of \<^verbatim>\<open>ParseGenericCall\<close>: the index of the opening bracket and the text before it.\<close>

function find_call ::
  "bool \<Rightarrow> SpanString \<Rightarrow> char \<Rightarrow> Traverser \<Rightarrow> error + (nat \<times> string) option" where
  "find_call too_much s opening t =
     (case Next (view s) t of
        None \<Rightarrow> Inr None
      | Some (step, t') \<Rightarrow>
          if status step \<noteq> OK then
            throw ''Parenthesis matches nothing.'' (slice s (idx step) (idx step + 1))
          else if state step = [opening] then
            (let i = idx step; pred = str (slice s 0 i) in
             if (i > 0 \<and> list_all (good_chars too_much) pred) \<or> pred = ''!'' \<or> pred = ''++?'' \<or>
                (i \<ge> 2 \<and> at s 0 = CHR 0x60 \<and> at s (i - 1) = CHR 0x60)
             then Inr (Some (i, pred))
             else Inr None)
          else if state step \<noteq> [] \<and> state step \<noteq> ''{'' \<and> hd (state step) \<noteq> CHR 0x60 then Inr None
          else find_call too_much s opening t')"
  by pat_completeness auto
termination
proof (relation "measure (\<lambda>(too_much, s, opn, t). length (view s) - fst t)")
  show "wf (measure (\<lambda>(too_much, s, opn, t). length (view s) - fst t))" by simp
next
  fix too_much :: bool and s :: SpanString and opn :: char and t :: Traverser and x2 step t'
  assume "Next (view s) t = Some x2" "(step, t') = x2"
  then have "Next (view s) t = Some (step, t')" by simp
  from Next_fst [OF this]
  show "((too_much, s, opn, t'), (too_much, s, opn, t))
        \<in> measure (\<lambda>(too_much, s, opn, t). length (view s) - fst t)"
    by auto
qed

declare find_call.simps [simp del]

definition ParseGenericCall ::
  "bool \<Rightarrow> SpanString \<Rightarrow> char \<Rightarrow> char \<Rightarrow> error + (string \<times> SpanString) option" where
  "ParseGenericCall too_much input opening closing =
     (let s = Strip input in
      if span_empty s then Inr None
      else
        attempt (if starts_with s ''->'' then Inr (Some (2, ''->''))
                 else find_call too_much s opening (0, []))
          (\<lambda>found.
             let i = fst found; predicate = snd found in
             if at s i = opening \<and> at s (span_size s - 1) = closing \<and>
                IsWhole (slice s (i + 1) (span_size s - 1))
             then Inr (Some (if predicate = ''`=`'' then ''=''
                             else if predicate = ''`~`'' then ''~''
                             else predicate,
                             slice s (i + 1) (span_size s - 1)))
             else Inr None)
          (Inr None))"

definition ParseCall :: "Parsers \<Rightarrow> SpanString \<Rightarrow> bool \<Rightarrow> error + Json option" where
  "ParseCall P s is_aggregation_allowed =
     attempt (ParseGenericCall (TOO_MUCH P) s (CHR ''('') (CHR '')''))
       (\<lambda>generic.
          bindE (ParseRecordInternals P (snd generic) False is_aggregation_allowed) (\<lambda>args.
          Inr (Some (call_node (fst generic) args))))
       (Inr None)"

definition trim_spaces :: "string \<Rightarrow> string" where
  "trim_spaces op = rev (dropWhile isspace (rev (dropWhile isspace op)))"

definition infix_operators :: "bool \<Rightarrow> string list" where
  "infix_operators too_much =
     (if too_much then [''---'', ''-+-'', ''-*-'', ''-/-'', ''-%-'', ''-^-''] else []) @
     [''||'', ''&&'', ''->'', ''=='', ''<='', ''>='', ''<'', ''>'', ''!='', ''='', ''~'',
      '' in '', '' is not '', '' is '', ''++?'', ''++'', ''+'', ''-'', ''*'', ''/'', ''%'', ''^'', ''!'']"

fun ParseInfix_loop ::
  "Parsers \<Rightarrow> SpanString \<Rightarrow> string list \<Rightarrow> string list \<Rightarrow> error + Json option" where
  "ParseInfix_loop P s dis [] = Inr None"
| "ParseInfix_loop P s dis (op # ops) =
     (if op \<in> set dis then ParseInfix_loop P s dis ops
      else
        bindE (SplitRaw s op) (\<lambda>parts.
        if length parts > 1 then
          let left0 = SpanString3 (heritage s) (start s) (stop (parts ! (length parts - 2)));
              right0 = SpanString3 (heritage s) (start (last parts)) (stop s)
          in
          if op = ''~'' \<and> view left0 \<noteq> [] \<and> last (view left0) = CHR ''!'' then
            ParseInfix_loop P s dis ops
          else
            let left = Strip left0; right = Strip right0 in
            if (op = ''-'' \<or> op = ''!'') \<and> span_empty left then
              bindE (ParseRecordInternals P right False False) (\<lambda>r. Inr (Some (call_node op r)))
            else if op = ''~'' \<and> span_empty left then Inr None
            else
              bindE (ParseExpression P left) (\<lambda>left_expr.
              bindE (ParseExpression P right) (\<lambda>right_expr.
              Inr (Some (call_node (trim_spaces op)
                (record_node [field_value (JString ''left'') (expression_value left_expr),
                              field_value (JString ''right'') (expression_value right_expr)])))))
        else ParseInfix_loop P s dis ops))"

definition ParseInfix ::
  "Parsers \<Rightarrow> SpanString \<Rightarrow> string list option \<Rightarrow> string list \<Rightarrow> error + Json option" where
  "ParseInfix P s operators disallow =
     ParseInfix_loop P s disallow
       (case operators of Some ops \<Rightarrow> ops | None \<Rightarrow> infix_operators (TOO_MUCH P))"

subsection \<open>Combine\<close>

definition BuildTreeForCombine :: "Json \<Rightarrow> SpanString \<Rightarrow> Json option \<Rightarrow> SpanString \<Rightarrow> Json" where
  "BuildTreeForCombine parsed_expression op parsed_body full_text =
     JObject ((case parsed_body of
                 Some body \<Rightarrow> [(''body'', JObject [(''conjunction'', body)])]
               | None \<Rightarrow> []) @
       [(''distinct_denoted'', JBool True),
        (''full_text'', JString (str full_text)),
        (''head'', call_node ''Combine''
           (record_node [field_value (JString ''logica_value'')
              (aggregation_node (str op) parsed_expression (str full_text))]))])"

text \<open>The body of a combine: \<^verbatim>\<open>Split(*body, ",")\<close> and a proposition for each part.\<close>

definition parse_body :: "Parsers \<Rightarrow> SpanString option \<Rightarrow> error + Json option" where
  "parse_body P body =
     (case body of
        None \<Rightarrow> Inr None
      | Some b \<Rightarrow>
          bindE (Split b '','') (\<lambda>conj.
          bindE (mapE (ParseProposition P) conj) (\<lambda>conjuncts.
          Inr (Some (JObject [(''conjunct'', JArray conjuncts)])))))"

definition ParseCombine :: "Parsers \<Rightarrow> SpanString \<Rightarrow> error + Json option" where
  "ParseCombine P input =
     (if \<not> starts_with input ''combine '' then Inr None
      else
        let s = slice_from input (length ''combine '') in
        bindE (SplitInOneOrTwo s '':-'') (\<lambda>vb.
        let v = (case vb of Inr (a, b) \<Rightarrow> a | Inl one \<Rightarrow> s);
            body = (case vb of Inr (a, b) \<Rightarrow> Some b | Inl one \<Rightarrow> None)
        in
        bindE (SplitInTwo v ''='') (\<lambda>op_expr.
        bindE (ParseExpression P (snd op_expr)) (\<lambda>parsed_expression.
        bindE (parse_body P body) (\<lambda>parsed_body.
        Inr (Some (BuildTreeForCombine parsed_expression (Strip (fst op_expr)) parsed_body s)))))))"

definition ParseImplication :: "Parsers \<Rightarrow> SpanString \<Rightarrow> error + Json option" where
  "ParseImplication P s =
     (if \<not> (starts_with s ''if '' \<or> starts_with s ''if\<newline>'') then Inr None
      else
        bindE (Split (slice_from s 3) ''else if'') (\<lambda>if_thens.
        bindE (SplitInTwo (last if_thens) ''else'') (\<lambda>last_pair.
        bindE (mapE (\<lambda>cond_cons.
                 bindE (SplitInTwo cond_cons ''then'') (\<lambda>cc.
                 bindE (ParseExpression P (fst cc)) (\<lambda>condition.
                 bindE (ParseExpression P (snd cc)) (\<lambda>consequence.
                 Inr (JObject [(''condition'', condition), (''consequence'', consequence)])))))
               (butlast if_thens @ [fst last_pair])) (\<lambda>result_if_thens.
        bindE (ParseExpression P (snd last_pair)) (\<lambda>otherwise.
        Inr (Some (JObject [(''if_then'', JArray result_if_thens), (''otherwise'', otherwise)])))))))"

definition ParseConciseCombine :: "Parsers \<Rightarrow> SpanString \<Rightarrow> error + Json option" where
  "ParseConciseCombine P s =
     bindE (Split s ''='') (\<lambda>parts.
     if length parts \<noteq> 2 then Inr None
     else
       let lhs_and_op = parts ! 0; combine = parts ! 1 in
       bindE (SplitOnWhitespace lhs_and_op) (\<lambda>left_parts.
       if length left_parts \<le> 1 then Inr None
       else
         let lhs = SpanString3 (heritage s) (start s) (stop (left_parts ! (length left_parts - 2)));
             op = last left_parts
         in
         if str op = ''!'' \<or> str op = ''<'' \<or> str op = ''>'' then Inr None
         else if \<not> span_empty op \<and> islower (at op 0) then Inr None
         else
           bindE (ParseExpression P lhs) (\<lambda>left_expr.
           bindE (SplitInOneOrTwo combine '':-'') (\<lambda>expr_body.
           let expr = (case expr_body of Inr (a, b) \<Rightarrow> a | Inl one \<Rightarrow> combine);
               body = (case expr_body of Inr (a, b) \<Rightarrow> Some b | Inl one \<Rightarrow> None)
           in
           bindE (ParseExpression P expr) (\<lambda>parsed_expression.
           bindE (parse_body P body) (\<lambda>parsed_body.
           Inr (Some (JObject
             [(''left_hand_side'', left_expr),
              (''right_hand_side'',
                 JObject [(''combine'', BuildTreeForCombine parsed_expression op parsed_body s),
                          (''expression_heritage'', JString (str s))])]))))))))"

definition ParseUltraConciseCombine :: "Parsers \<Rightarrow> SpanString \<Rightarrow> error + Json option" where
  "ParseUltraConciseCombine P s =
     attempt (ParseGenericCall (TOO_MUCH P) s (CHR ''{'') (CHR ''}''))
       (\<lambda>gc.
          let multiset = snd gc; op = SpanString1 (fst gc) in
          bindE (SplitInOneOrTwo multiset '':-'') (\<lambda>vb.
          let v = (case vb of Inr (a, b) \<Rightarrow> a | Inl one \<Rightarrow> multiset);
              body = (case vb of Inr (a, b) \<Rightarrow> Some b | Inl one \<Rightarrow> None)
          in
          bindE (ParseExpression P v) (\<lambda>parsed_expression.
          bindE (parse_body P body) (\<lambda>parsed_body.
          Inr (Some (BuildTreeForCombine parsed_expression op parsed_body s))))))
       (Inr None)"

subsection \<open>Inclusion, unification, subscripts\<close>

definition ParseInclusion :: "Parsers \<Rightarrow> SpanString \<Rightarrow> error + Json option" where
  "ParseInclusion P s =
     bindE (Split s '' in '') (\<lambda>parts.
     if length parts \<noteq> 2 then Inr None
     else
       bindE (ParseExpression P (parts ! 1)) (\<lambda>list.
       bindE (ParseExpression P (parts ! 0)) (\<lambda>element.
       Inr (Some (JObject [(''element'', element), (''list'', list)])))))"

definition ParseUnification :: "Parsers \<Rightarrow> SpanString \<Rightarrow> error + Json option" where
  "ParseUnification P s =
     bindE (Split s ''=='') (\<lambda>parts.
     if length parts \<noteq> 2 then Inr None
     else
       bindE (ParseExpression P (parts ! 0)) (\<lambda>left_hand_side.
       bindE (ParseExpression P (parts ! 1)) (\<lambda>right_hand_side.
       Inr (Some (JObject [(''left_hand_side'', left_hand_side),
                           (''right_hand_side'', right_hand_side)])))))"

text \<open>
  The loop of \<^verbatim>\<open>NestedElement\<close>. With no argument the C++ dereferences an empty
  \<^verbatim>\<open>std::optional\<close>, which is undefined; the model gives \<^verbatim>\<open>std::bad_variant_access\<close>.
\<close>

fun NestedElement_loop ::
  "SpanString \<Rightarrow> Json \<Rightarrow> Json option \<Rightarrow> nat \<Rightarrow> Json list \<Rightarrow> error + Json option" where
  "NestedElement_loop s array res i [] = Inr res"
| "NestedElement_loop s array res i (fv # fvs) =
     bindE (as_object fv) (\<lambda>fvo.
     case obj_find ''field'' fvo of
       None \<Rightarrow> throw ''Internal error in array subscription.'' s
     | Some field \<Rightarrow>
         if \<not> is_int field \<or> field \<noteq> JInt (int i) then
           throw ''Array subscription must only have positional arguments.'' s
         else
           let first_argument = (case res of Some r \<Rightarrow> JObject [(''call'', r)] | None \<Rightarrow> array) in
           NestedElement_loop s array
             (Some (call_node ''Element''
                (record_node [field_value (JInt 0) (expression_value first_argument),
                              JObject (obj_set ''field'' (JInt 1) fvo)])))
             (i + 1) fvs)"

definition NestedElement :: "SpanString \<Rightarrow> Json \<Rightarrow> Json \<Rightarrow> error + Json" where
  "NestedElement s array args =
     bindE (as_object args) (\<lambda>ao.
     bindE (obj_at ''field_value'' ao) (\<lambda>fv.
     bindE (as_array fv) (\<lambda>fvs.
     bindE (NestedElement_loop s array None 0 fvs) (\<lambda>res.
     case res of Some r \<Rightarrow> Inr r | None \<Rightarrow> Inl bad_variant_access))))"

definition ParseArraySub :: "Parsers \<Rightarrow> SpanString \<Rightarrow> error + Json option" where
  "ParseArraySub P s =
     attempt (ParseGenericCall (TOO_MUCH P) s (CHR ''['') (CHR '']''))
       (\<lambda>generic.
          bindE (ParseRecordInternals P (snd generic) False False) (\<lambda>args.
          bindE (ParseExpression P (SpanString1 (fst generic))) (\<lambda>array.
          bindE (NestedElement s array args) (\<lambda>r. Inr (Some r)))))
       (Inr None)"

definition ParseSubscript :: "Parsers \<Rightarrow> SpanString \<Rightarrow> error + Json option" where
  "ParseSubscript P s =
     bindE (SplitRaw s ''.'') (\<lambda>path.
     if length path < 2 then Inr None
     else
       let record_str = SpanString3 (heritage s) (start s) (stop (path ! (length path - 2))) in
       bindE (ParseExpression P (Strip record_str)) (\<lambda>rec.
       if \<not> list_all (\<lambda>c. islower c \<or> isdigit c \<or> c = CHR ''_'') (view (last path)) then
         throw ''Subscript must be lowercase.'' s
       else
         Inr (Some (JObject [(''record'', rec),
           (''subscript'', JObject [(''literal'', JObject [(''the_symbol'',
              JObject [(''symbol'', JString (str (last path)))])])])]))))"

subsection \<open>Propositions\<close>

definition ParseNegation :: "Parsers \<Rightarrow> SpanString \<Rightarrow> error + Json option" where
  "ParseNegation P s =
     bindE (Split s ''~'') (\<lambda>parts.
     if length parts = 1 then Inr None
     else if length parts \<noteq> 2 \<or> \<not> span_empty (parts ! 0) then
       throw ''Negation \"~\" is a unary operator.'' s
     else
       let negated = Strip (parts ! 1) in
       bindE (Split negated '','') (\<lambda>conj_parts.
       bindE (mapE (ParseProposition P) conj_parts) (\<lambda>conjuncts.
       Inr (Some (NegationTree s (conjunction_node conjuncts))))))"

definition ParseNegationExpression :: "Parsers \<Rightarrow> SpanString \<Rightarrow> error + Json option" where
  "ParseNegationExpression P s =
     attempt (ParseNegation P s)
       (\<lambda>proposition.
          bindE (as_object proposition) (\<lambda>po.
          bindE (obj_at ''predicate'' po) (\<lambda>predicate.
          Inr (Some (JObject [(''call'', predicate)])))))
       (Inr None)"

definition ParseDisjunction :: "Parsers \<Rightarrow> SpanString \<Rightarrow> error + Json option" where
  "ParseDisjunction P s =
     bindE (Split s ''|'') (\<lambda>parts.
     if length parts = 1 then Inr None
     else
       bindE (mapE (ParseProposition P) parts) (\<lambda>disj.
       Inr (Some (JObject [(''disjunct'', JArray disj)]))))"

definition ParseConjunction :: "Parsers \<Rightarrow> SpanString \<Rightarrow> bool \<Rightarrow> error + Json option" where
  "ParseConjunction P s allow_singleton =
     bindE (Split s '','') (\<lambda>parts.
     if length parts = 1 \<and> \<not> allow_singleton then Inr None
     else
       bindE (mapE (ParseProposition P) parts) (\<lambda>cjs.
       Inr (Some (JObject [(''conjunct'', JArray cjs)]))))"

definition ensure_conjunction :: "Json \<Rightarrow> Json" where
  "ensure_conjunction x = (if HasKey x ''conjunction'' then x else conjunction_node [x])"

definition PropositionalImplication ::
  "SpanString \<Rightarrow> SpanString \<Rightarrow> Json \<Rightarrow> Json \<Rightarrow> error + Json" where
  "PropositionalImplication s consequence_str condition consequence =
     bindE (if HasKey condition ''conjunction'' then
              bindE (as_object condition) (\<lambda>co.
              bindE (obj_at ''conjunction'' co) (\<lambda>c.
              bindE (as_object c) (\<lambda>cjo.
              bindE (obj_at ''conjunct'' cjo) as_array)))
            else Inr [condition]) (\<lambda>conjuncts.
     Inr (NegationTree s (conjunction_node
            (conjuncts @ [NegationTree consequence_str (ensure_conjunction consequence)]))))"

definition ParsePropositionalImplication :: "Parsers \<Rightarrow> SpanString \<Rightarrow> error + Json option" where
  "ParsePropositionalImplication P s =
     bindE (Split s ''=>'') (\<lambda>parts.
     if length parts \<noteq> 2 then Inr None
     else
       bindE (ParseProposition P (parts ! 0)) (\<lambda>cond.
       bindE (ParseProposition P (parts ! 1)) (\<lambda>cons.
       bindE (PropositionalImplication s (parts ! 1) cond cons) (\<lambda>r. Inr (Some r)))))"

definition ParsePropositionalEquivalence :: "Parsers \<Rightarrow> SpanString \<Rightarrow> error + Json option" where
  "ParsePropositionalEquivalence P s =
     bindE (Split s ''<=>'') (\<lambda>parts.
     if length parts \<noteq> 2 then Inr None
     else
       bindE (ParseProposition P (parts ! 0)) (\<lambda>left1.
       bindE (ParseProposition P (parts ! 1)) (\<lambda>right1.
       bindE (ParseProposition P (parts ! 0)) (\<lambda>left2.
       bindE (ParseProposition P (parts ! 1)) (\<lambda>right2.
       bindE (PropositionalImplication s (parts ! 1) left1 right1) (\<lambda>a.
       bindE (PropositionalImplication s (parts ! 0) right2 left2) (\<lambda>b.
       Inr (Some (conjunction_node [a, b])))))))))"

text \<open>The body of \<^verbatim>\<open>ParseProposition\<close>.\<close>

definition ParseProposition_body :: "Parsers \<Rightarrow> SpanString \<Rightarrow> error + Json" where
  "ParseProposition_body P s =
     attempt (ParseDisjunction P s) (\<lambda>c. Inr (JObject [(''disjunction'', c)]))
    (bindE (Split s '','') (\<lambda>str_conjuncts.
     attempt (bindE (ParseConjunction P s False) (\<lambda>c.
                Inr (if length str_conjuncts > 1 then c else None)))
       (\<lambda>c. Inr (JObject [(''conjunction'', c)]))
    (attempt (if TOO_MUCH P then ParsePropositionalEquivalence P s else Inr None)
       (\<lambda>c. Inr (conjunction_node [c]))
    (attempt (ParsePropositionalImplication P s) Inr
    (attempt (ParseImplication P s)
       (\<lambda>c. throw ''If-then-else clause is only supported as an expression, not as a proposition.'' s)
    (attempt (ParseCall P s False) (\<lambda>c. Inr (JObject [(''predicate'', c)]))
    (attempt (ParseInfix P s (Some [''&&'', ''||'']) []) (\<lambda>c. Inr (JObject [(''predicate'', c)]))
    (attempt (ParseUnification P s) (\<lambda>u. Inr (JObject [(''unification'', u)]))
    (attempt (ParseInclusion P s) (\<lambda>inc. Inr (JObject [(''inclusion'', inc)]))
    (attempt (ParseConciseCombine P s) (\<lambda>cc. Inr (JObject [(''unification'', cc)]))
    (attempt (ParseInfix P s None []) (\<lambda>inf. Inr (JObject [(''predicate'', inf)]))
    (attempt (ParseNegation P s) Inr
    (throw ''Could not parse proposition.'' s)))))))))))))"

subsection \<open>Expressions\<close>

definition ActuallyParseExpression :: "Parsers \<Rightarrow> SpanString \<Rightarrow> error + Json" where
  "ActuallyParseExpression P s =
     attempt (ParseCombine P s) (\<lambda>v. Inr (JObject [(''combine'', v)]))
    (attempt (ParseImplication P s) (\<lambda>v. Inr (JObject [(''implication'', v)]))
    (attempt (ParseLiteral P s) (\<lambda>v. Inr (JObject [(''literal'', v)]))
    (attempt (ParseVariable s) (\<lambda>v. Inr (JObject [(''variable'', v)]))
    (attempt (ParseRecord P s) (\<lambda>v. Inr (JObject [(''record'', v)]))
    (attempt (bindE (ParsePropositionalImplication P s) (\<lambda>r.
                Inr (case r of
                       Some v \<Rightarrow> (case v of JObject vo \<Rightarrow> obj_find ''predicate'' vo | _ \<Rightarrow> None)
                     | None \<Rightarrow> None)))
       (\<lambda>predicate. Inr (JObject [(''call'', predicate)]))
    (attempt (ParseCall P s False) (\<lambda>v. Inr (JObject [(''call'', v)]))
    (attempt (ParseUltraConciseCombine P s) (\<lambda>v. Inr (JObject [(''combine'', v)]))
    (attempt (ParseInfix P s None [''~'']) (\<lambda>v. Inr (JObject [(''call'', v)]))
    (attempt (ParseSubscript P s) (\<lambda>v. Inr (JObject [(''subscript'', v)]))
    (attempt (ParseNegationExpression P s) Inr
    (attempt (ParseArraySub P s) (\<lambda>v. Inr (JObject [(''call'', v)]))
    (throw ''Could not parse expression of a value.'' s))))))))))))"

text \<open>The body of \<^verbatim>\<open>ParseExpression\<close>: the heritage is attached to the node.\<close>

definition ParseExpression_body :: "Parsers \<Rightarrow> SpanString \<Rightarrow> error + Json" where
  "ParseExpression_body P s =
     bindE (ActuallyParseExpression P s) (\<lambda>e.
     bindE (as_object e) (\<lambda>eo.
     Inr (JObject (obj_set ''expression_heritage'' (JString (str s)) eo))))"

subsection \<open>Closing the recursion\<close>

text \<open>
  The parser that may nest \<^verbatim>\<open>ParseExpression\<close> and \<^verbatim>\<open>ParseProposition\<close> up to \<open>depth\<close>
  calls deep; a deeper call is the overflow of the call stack.
\<close>

fun parsers :: "bool \<Rightarrow> (string \<Rightarrow> nat \<times> bool) \<Rightarrow> nat \<Rightarrow> Parsers" where
  "parsers too_much sd 0 =
     \<lparr>TOO_MUCH = too_much, strtod = sd,
      ParseExpression = (\<lambda>s. Inl stack_overflow),
      ParseProposition = (\<lambda>s. Inl stack_overflow)\<rparr>"
| "parsers too_much sd (Suc depth) =
     \<lparr>TOO_MUCH = too_much, strtod = sd,
      ParseExpression = ParseExpression_body (parsers too_much sd depth),
      ParseProposition = ParseProposition_body (parsers too_much sd depth)\<rparr>"

section \<open>Rules\<close>

text \<open>
  The loop of \<^verbatim>\<open>ParseHeadCall\<close>: the index at which the first bracket \<^verbatim>\<open>(\<close> of the head
  is closed, with \<^verbatim>\<open>saw_open\<close>. When the loop ends without a \<^verbatim>\<open>break\<close> the index is 0.
\<close>

function head_call_end :: "SpanString \<Rightarrow> bool \<Rightarrow> Traverser \<Rightarrow> error + bool \<times> nat" where
  "head_call_end s saw_open t =
     (case Next (view s) t of
        None \<Rightarrow> Inr (saw_open, 0)
      | Some (step, t') \<Rightarrow>
          if status step \<noteq> OK then
            throw ''Parenthesis matches nothing.'' (slice s (idx step) (idx step + 1))
          else
            let saw = (saw_open \<or> state step = ''('') in
            if saw \<and> state step = [] then Inr (saw, idx step)
            else head_call_end s saw t')"
  by pat_completeness auto
termination
proof (relation "measure (\<lambda>(s, saw_open, t). length (view s) - fst t)")
  show "wf (measure (\<lambda>(s, saw_open, t). length (view s) - fst t))" by simp
next
  fix s :: SpanString and saw_open :: bool and t :: Traverser and x2 step t' saw
  assume "Next (view s) t = Some x2" "(step, t') = x2"
  then have "Next (view s) t = Some (step, t')" by simp
  from Next_fst [OF this]
  show "((s, saw, t'), (s, saw_open, t)) \<in> measure (\<lambda>(s, saw_open, t). length (view s) - fst t)"
    by auto
qed

declare head_call_end.simps [simp del]

text \<open>The field values of a call, and the call with one more.\<close>

definition call_field_values :: "Json \<Rightarrow> error + Json list" where
  "call_field_values call =
     bindE (as_object call) (\<lambda>co.
     bindE (obj_at ''record'' co) (\<lambda>r.
     bindE (as_object r) (\<lambda>ro.
     bindE (obj_at ''field_value'' ro) as_array)))"

definition push_field_value :: "Json \<Rightarrow> Json \<Rightarrow> error + Json" where
  "push_field_value call fv =
     bindE (as_object call) (\<lambda>co.
     bindE (obj_at ''record'' co) (\<lambda>r.
     bindE (as_object r) (\<lambda>ro.
     bindE (obj_at ''field_value'' ro) (\<lambda>a.
     bindE (as_array a) (\<lambda>fvs.
     Inr (JObject (obj_replace ''record''
            (JObject (obj_replace ''field_value'' (JArray (fvs @ [fv])) ro)) co)))))))"

text \<open>\<^verbatim>\<open>check_agg\<close> of \<^verbatim>\<open>ParseHeadCall\<close>.\<close>

definition check_agg :: "bool \<Rightarrow> SpanString \<Rightarrow> Json \<Rightarrow> error + unit" where
  "check_agg distinct_from_outside call_str call =
     (if distinct_from_outside then Inr ()
      else
        bindE (call_field_values call) (\<lambda>fvs.
        bindE (mapE (\<lambda>fv.
                 bindE (as_object fv) (\<lambda>fvo.
                 bindE (obj_at ''value'' fvo) (\<lambda>v.
                 bindE (as_object v) (\<lambda>vo.
                 if obj_count ''aggregation'' vo then
                   throw ''Aggregation appears in a non-distinct predicate. Did you forget distinct?'' call_str
                 else Inr ())))) fvs) (\<lambda>u. Inr ())))"

definition ParseHeadCall :: "Parsers \<Rightarrow> SpanString \<Rightarrow> bool \<Rightarrow> error + Json \<times> bool" where
  "ParseHeadCall P s distinct_from_outside =
     bindE (head_call_end s False (0, [])) (\<lambda>found.
     if \<not> fst found then throw ''Found no call in rule head.'' s
     else
       let i = snd found;
           call_str = slice s 0 (i + 1);
           post_call_str = slice_from s (i + 1)
       in
       attempt (ParseCall P call_str True)
         (\<lambda>call.
            bindE (Split post_call_str ''='') (\<lambda>op_expr.
            if length op_expr = 1 then
              (if \<not> span_empty (op_expr ! 0) then
                 throw ''Unexpected text in the head of a rule.'' (op_expr ! 0)
               else bindE (check_agg distinct_from_outside call_str call) (\<lambda>u. Inr (call, False)))
            else if length op_expr > 2 then
              throw ''Too many '=' in predicate value.'' post_call_str
            else
              let op_str = op_expr ! 0; expr_str = op_expr ! 1 in
              if span_empty op_str then
                bindE (call_field_values call) (\<lambda>fvs.
                bindE (ParseExpression P expr_str) (\<lambda>e.
                bindE (push_field_value call
                         (field_value (JString ''logica_value'') (expression_value e))) (\<lambda>call'.
                bindE (check_agg distinct_from_outside call_str call') (\<lambda>u. Inr (call', False)))))
              else
                bindE (ParseExpression P expr_str) (\<lambda>argument.
                bindE (push_field_value call
                         (field_value (JString ''logica_value'')
                            (aggregation_node (str op_str) argument (str post_call_str)))) (\<lambda>call'.
                Inr (call', True)))))
         (throw ''Could not parse predicate call.'' call_str))"

definition the_predicate_literal :: "Json \<Rightarrow> Json" where
  "the_predicate_literal name =
     JObject [(''literal'', JObject [(''the_predicate'', JObject [(''predicate_name'', name)])])]"

definition ParseFunctorRule :: "Parsers \<Rightarrow> SpanString \<Rightarrow> error + Json option" where
  "ParseFunctorRule P s =
     bindE (Split s '':='') (\<lambda>parts.
     if length parts \<noteq> 2 then Inr None
     else
       bindE (ParseExpression P (parts ! 0)) (\<lambda>new_predicate.
       bindE (ParseExpression P (parts ! 1)) (\<lambda>definition_expr.
       bindE (as_object definition_expr) (\<lambda>deo.
       if \<not> obj_count ''call'' deo then throw FunctorSyntaxErrorMessage (parts ! 1)
       else
         bindE (obj_at ''call'' deo) (\<lambda>dfn.
         bindE (as_object new_predicate) (\<lambda>npo.
         bindE (if obj_count ''literal'' npo then
                  bindE (obj_at ''literal'' npo) (\<lambda>l.
                  bindE (as_object l) (\<lambda>lo. Inr (obj_count ''the_predicate'' lo)))
                else Inr False) (\<lambda>is_predicate.
         if \<not> is_predicate then throw FunctorSyntaxErrorMessage (parts ! 0)
         else
           bindE (as_object dfn) (\<lambda>dfo.
           bindE (obj_at ''predicate_name'' dfo) (\<lambda>name.
           bindE (obj_at ''record'' dfo) (\<lambda>rec.
           Inr (Some (JObject
             [(''full_text'', JString (str s)),
              (''head'', call_node ''@Make'' (record_node
                 [field_value (JInt 0) (expression_value new_predicate),
                  field_value (JInt 1) (expression_value (the_predicate_literal name)),
                  field_value (JInt 2) (expression_value (JObject [(''record'', rec)]))]))]))))))))))))"

text \<open>
  \<^verbatim>\<open>GrabDenotation\<close> returns the head without the denotation, whether the denotation
  was there, and its arguments.
\<close>

definition GrabDenotation ::
  "Parsers \<Rightarrow> SpanString \<Rightarrow> string \<Rightarrow> bool \<Rightarrow> error + SpanString \<times> bool \<times> Json option" where
  "GrabDenotation P head denotation with_arguments =
     bindE (Split head denotation) (\<lambda>head_couldbe.
     if length head_couldbe > 2 then throw ''Too many denotations.'' head
     else if with_arguments then
       (if length head_couldbe = 2 then
          let arg = Strip (head_couldbe ! 1) in
          if \<not> span_empty arg \<and> at arg 0 = CHR ''('' then
            throw ''Can not parse denotations when extracting.'' head
          else
            bindE (ParseRecordInternals P arg False False) (\<lambda>args.
            Inr (head_couldbe ! 0, True, Some args))
        else Inr (head, False, None))
     else if length head_couldbe = 2 then
       (if \<not> span_empty (StripSpaces (head_couldbe ! 1)) then
          throw ''Too many denotations or incorrect place.'' head
        else Inr (head_couldbe ! 0, True, None))
     else Inr (head, False, None))"

text \<open>
  The two parts of \<^verbatim>\<open>ParseRule\<close> after the denotations: the head with its suffix
  \<^verbatim>\<open>distinct\<close>, which gives the parsed head and whether the rule is distinct; and the object
  of the rule, the keys of \<^verbatim>\<open>result\<close> in their order.
\<close>

definition parse_distinct_head :: "Parsers \<Rightarrow> SpanString \<Rightarrow> error + Json \<times> bool" where
  "parse_distinct_head P head =
     bindE (Split head ''distinct'') (\<lambda>head_distinct.
     if length head_distinct = 1 then ParseHeadCall P head False
     else if \<not> (length head_distinct = 2 \<and> span_empty (head_distinct ! 1)) then
       throw ''Can not parse rule head. Something is wrong with distinct.'' head
     else
       bindE (ParseHeadCall P (head_distinct ! 0) True) (\<lambda>(parsed_head, is_distinct).
       Inr (parsed_head, True)))"

definition rule_node ::
  "Json \<Rightarrow> bool \<Rightarrow> bool \<Rightarrow> bool \<Rightarrow> bool \<Rightarrow> Json option \<Rightarrow> Json option \<Rightarrow> Json option \<Rightarrow>
   string \<Rightarrow> Json" where
  "rule_node parsed_head is_distinct couldbe cantbe shouldbe order_by_what limit_what body full_text =
     JObject
       ((case body of Some b \<Rightarrow> [(''body'', b)] | None \<Rightarrow> []) @
        (if cantbe then [(''cantbe_denoted'', JBool True)] else []) @
        (if couldbe then [(''couldbe_denoted'', JBool True)] else []) @
        (if is_distinct then [(''distinct_denoted'', JBool True)] else []) @
        [(''full_text'', JString full_text), (''head'', parsed_head)] @
        (case limit_what of Some w \<Rightarrow> [(''limit_denoted'', w)] | None \<Rightarrow> []) @
        (case order_by_what of Some w \<Rightarrow> [(''orderby_denoted'', w)] | None \<Rightarrow> []) @
        (if shouldbe then [(''shouldbe_denoted'', JBool True)] else []))"

definition ParseRule :: "Parsers \<Rightarrow> SpanString \<Rightarrow> error + Json" where
  "ParseRule P s =
     bindE (Split s '':-'') (\<lambda>parts.
     if length parts > 2 then throw ''Too many :- in a rule. Did you forget semicolon?'' s
     else
       bindE (GrabDenotation P (parts ! 0) ''couldbe'' False) (\<lambda>(h1, couldbe, none1).
       bindE (GrabDenotation P h1 ''cantbe'' False) (\<lambda>(h2, cantbe, none2).
       bindE (GrabDenotation P h2 ''shouldbe'' False) (\<lambda>(h3, shouldbe, none3).
       bindE (GrabDenotation P h3 ''limit'' True) (\<lambda>(h4, limit, limit_what).
       bindE (GrabDenotation P h4 ''order_by'' True) (\<lambda>(head, order_by, order_by_what).
       bindE (parse_distinct_head P head) (\<lambda>(parsed_head, is_distinct).
       bindE (if length parts = 2 then
                bindE (ParseProposition P (parts ! 1)) (\<lambda>b. Inr (Some b))
              else Inr None) (\<lambda>body.
       Inr (rule_node parsed_head is_distinct couldbe cantbe shouldbe order_by_what limit_what
              body (str s))))))))))"

definition ParseFunctionRuleImpl :: "Parsers \<Rightarrow> SpanString \<Rightarrow> error + (Json \<times> Json) option" where
  "ParseFunctionRuleImpl P s =
     bindE (SplitRaw s ''-->'') (\<lambda>parts.
     if length parts \<noteq> 2 then Inr None
     else
       attempt (ParseCall P (parts ! 0) False)
         (\<lambda>this_call.
            bindE (as_object this_call) (\<lambda>co.
            bindE (obj_at ''predicate_name'' co) (\<lambda>pn.
            bindE (as_string pn) (\<lambda>pred_name.
            bindE (ParseRule P (SpanString1 (''@CompileAsUdf('' @ pred_name @ '')''))) (\<lambda>annotation_rule.
            bindE (ParseRule P (SpanString1 (str (parts ! 0) @ '' = '' @ str (parts ! 1)))) (\<lambda>rule.
            Inr (Some (annotation_rule, rule))))))))
         (throw ''Left hand side of function definition must be a predicate call.'' (parts ! 0)))"

section \<open>Rewrites\<close>

subsection \<open>Aggregations as expressions\<close>

definition AggregationOperator :: "string \<Rightarrow> string" where
  "AggregationOperator raw =
     (if raw = ''+'' then ''Agg+''
      else if raw = ''++'' then ''Agg++''
      else if raw = ''*'' then ''`*`''
      else raw)"

definition aggregation_call :: "string \<Rightarrow> Json \<Rightarrow> Json \<Rightarrow> Json" where
  "aggregation_call p arg h =
     JObject [(''call'', JObject [(''predicate_name'', JString p),
                 (''record'', JObject [(''field_value'',
                    JArray [JObject [(''field'', JInt 0),
                                     (''value'', JObject [(''expression'', arg)])]])])]),
              (''expression_heritage'', h)]"

definition AggregationConvert :: "Json \<Rightarrow> error + Json" where
  "AggregationConvert a =
     bindE (as_object a) (\<lambda>ao.
     bindE (obj_at ''operator'' ao) (\<lambda>op.
     bindE (as_string op) (\<lambda>raw.
     bindE (obj_at ''argument'' ao) (\<lambda>arg.
     bindE (obj_at ''expression_heritage'' ao) (\<lambda>h.
     Inr (aggregation_call (AggregationOperator raw) arg h))))))"

text \<open>
  The body of the first loop of \<^verbatim>\<open>RewriteAggregationsInternal\<close>, for one entry \<open>v\<close> of the
  node: when \<open>v\<close> is an object whose key \<^verbatim>\<open>aggregation\<close> holds an object, that object loses
  \<^verbatim>\<open>operator\<close> and \<^verbatim>\<open>argument\<close> and gains \<^verbatim>\<open>expression\<close>.
\<close>

definition convert_slot :: "Json \<Rightarrow> error + Json" where
  "convert_slot v =
     (case v of
        JObject vo \<Rightarrow>
          (case obj_find ''aggregation'' vo of
             Some (JObject ao) \<Rightarrow>
               bindE (AggregationConvert (JObject ao)) (\<lambda>expr.
               Inr (JObject (obj_replace ''aggregation''
                      (JObject (obj_set ''expression'' expr
                         (obj_erase ''argument'' (obj_erase ''operator'' ao)))) vo)))
           | _ \<Rightarrow> Inr v)
      | _ \<Rightarrow> Inr v)"

definition convert_entry :: "string \<times> Json \<Rightarrow> error + string \<times> Json" where
  "convert_entry kv = bindE (convert_slot (snd kv)) (\<lambda>v'. Inr (fst kv, v'))"

text \<open>The measure of the recursion: a converted slot is not heavier than the slot it was.\<close>

fun weight :: "Json \<Rightarrow> nat" where
  "weight (JObject ob) =
     1 + sum_list (map (\<lambda>kv. weight (snd kv)) ob)
       + (if ''operator'' \<in> fst ` set ob
          then 12 + sum_list (map (\<lambda>kv. if fst kv = ''expression_heritage''
                                          then weight (snd kv) else 0) ob)
          else 0)"
| "weight (JArray a) = 1 + sum_list (map weight a)"
| "weight _ = 1"

definition wsum :: "JsonObject \<Rightarrow> nat" where
  "wsum ob = sum_list (map (\<lambda>kv. weight (snd kv)) ob)"

definition hsum :: "JsonObject \<Rightarrow> nat" where
  "hsum ob = sum_list (map (\<lambda>kv. if fst kv = ''expression_heritage'' then weight (snd kv) else 0) ob)"

lemma weight_JObject:
  "weight (JObject ob) = 1 + wsum ob + (if ''operator'' \<in> fst ` set ob then 12 + hsum ob else 0)"
  by (simp add: wsum_def hsum_def)

lemma wsum_erase: "wsum (obj_erase k ob) \<le> wsum ob"
  by (induction ob) (auto simp: wsum_def obj_erase_def)

lemma wsum_erase_found:
  "map_of ob k = Some v \<Longrightarrow> wsum (obj_erase k ob) + weight v \<le> wsum ob"
proof (induction ob)
  case Nil
  then show ?case by simp
next
  case (Cons a ob)
  show ?case
  proof (cases "fst a = k")
    case True
    with Cons.prems have "snd a = v" by (cases a) auto
    moreover have "wsum (obj_erase k ob) \<le> wsum ob" by (rule wsum_erase)
    ultimately show ?thesis using True
      by (cases a) (auto simp: wsum_def obj_erase_def)
  next
    case False
    with Cons show ?thesis
      by (cases a) (auto simp: wsum_def obj_erase_def)
  qed
qed

lemma map_of_erase: "map_of (obj_erase k ob) k' = (if k' = k then None else map_of ob k')"
  by (induction ob) (auto simp: obj_erase_def)

lemma keys_erase: "fst ` set (obj_erase k ob) = fst ` set ob - {k}"
  by (auto simp: obj_erase_def)

lemma wsum_set: "wsum (obj_set k v ob) \<le> wsum ob + weight v"
  by (induction ob) (auto simp: wsum_def)

lemma keys_set: "fst ` set (obj_set k v ob) = insert k (fst ` set ob)"
  by (induction ob) force+

lemma hsum_found: "map_of ob ''expression_heritage'' = Some h \<Longrightarrow> weight h \<le> hsum ob"
  by (induction ob) (auto simp: hsum_def split: if_splits)

lemma keys_replace: "map fst (obj_replace k v ob) = map fst ob"
  by (induction ob) auto

lemma wsum_replace:
  "map_of ob k = Some v \<Longrightarrow> weight v' \<le> weight v \<Longrightarrow> wsum (obj_replace k v' ob) \<le> wsum ob"
  by (induction ob) (auto simp: wsum_def)

lemma hsum_replace:
  "k \<noteq> ''expression_heritage'' \<Longrightarrow> hsum (obj_replace k v ob) = hsum ob"
  by (induction ob) (auto simp: hsum_def)

lemma weight_aggregation_call: "weight (aggregation_call p arg h) = weight arg + weight h + 8"
  by (simp add: aggregation_call_def)

lemma as_object_Inr [simp]: "as_object a = Inr ao \<longleftrightarrow> a = JObject ao"
  by (cases a) auto

lemma as_array_Inr [simp]: "as_array a = Inr xs \<longleftrightarrow> a = JArray xs"
  by (cases a) auto

lemma as_string_Inr [simp]: "as_string a = Inr s \<longleftrightarrow> a = JString s"
  by (cases a) auto

lemma obj_at_Inr [simp]: "obj_at k ob = Inr v \<longleftrightarrow> map_of ob k = Some v"
  by (simp add: obj_at_def obj_find_def split: option.splits)

lemma AggregationConvert_Inr:
  "AggregationConvert a = Inr e \<longleftrightarrow>
     (\<exists>ao raw arg h. a = JObject ao \<and> map_of ao ''operator'' = Some (JString raw) \<and>
        map_of ao ''argument'' = Some arg \<and> map_of ao ''expression_heritage'' = Some h \<and>
        e = aggregation_call (AggregationOperator raw) arg h)"
  by (auto simp: AggregationConvert_def bindE_Inr_iff)

lemma weight_converted_aggregation:
  assumes "map_of ao ''operator'' = Some (JString raw)" "map_of ao ''argument'' = Some arg"
    "map_of ao ''expression_heritage'' = Some h"
  shows "weight (JObject (obj_set ''expression'' (aggregation_call p arg h)
            (obj_erase ''argument'' (obj_erase ''operator'' ao)))) \<le> weight (JObject ao)"
proof -
  let ?e = "obj_erase ''argument'' (obj_erase ''operator'' ao)"
  have op: "''operator'' \<in> fst ` set ao"
    using map_of_SomeD [OF assms(1)] by force
  have "map_of (obj_erase ''operator'' ao) ''argument'' = Some arg"
    using assms(2) by (simp add: map_of_erase)
  then have "wsum ?e + weight arg \<le> wsum (obj_erase ''operator'' ao)"
    by (rule wsum_erase_found)
  also have "\<dots> \<le> wsum ao" by (rule wsum_erase)
  finally have e: "wsum ?e + weight arg \<le> wsum ao" .
  have nop: "''operator'' \<notin> fst ` set (obj_set ''expression'' (aggregation_call p arg h) ?e)"
    by (simp add: keys_set keys_erase)
  have "wsum (obj_set ''expression'' (aggregation_call p arg h) ?e)
          \<le> wsum ?e + (weight arg + weight h + 8)"
    using wsum_set [of "''expression''" "aggregation_call p arg h" ?e]
    by (simp add: weight_aggregation_call)
  moreover have "weight h \<le> hsum ao" using assms(3) by (rule hsum_found)
  ultimately show ?thesis
    using e op nop unfolding weight_JObject by simp
qed

lemma weight_convert_slot: "convert_slot v = Inr v' \<Longrightarrow> weight v' \<le> weight v"
proof (cases v)
  case (JObject vo)
  assume c: "convert_slot v = Inr v'"
  show ?thesis
  proof (cases "map_of vo ''aggregation''")
    case None
    with c JObject show ?thesis by (simp add: convert_slot_def obj_find_def)
  next
    case (Some a)
    show ?thesis
    proof (cases a)
      case (JObject ao)
      from c \<open>v = JObject vo\<close> Some JObject obtain e where
        e: "AggregationConvert (JObject ao) = Inr e" and
        v': "v' = JObject (obj_replace ''aggregation''
                      (JObject (obj_set ''expression'' e
                         (obj_erase ''argument'' (obj_erase ''operator'' ao)))) vo)"
        by (auto simp: convert_slot_def obj_find_def bindE_Inr_iff)
      from e obtain raw arg h where
        m: "map_of ao ''operator'' = Some (JString raw)" "map_of ao ''argument'' = Some arg"
           "map_of ao ''expression_heritage'' = Some h" and
        e': "e = aggregation_call (AggregationOperator raw) arg h"
        by (auto simp: AggregationConvert_Inr)
      let ?a' = "JObject (obj_set ''expression'' e (obj_erase ''argument'' (obj_erase ''operator'' ao)))"
      have "weight ?a' \<le> weight a"
        unfolding e' JObject by (rule weight_converted_aggregation [OF m])
      then have "wsum (obj_replace ''aggregation'' ?a' vo) \<le> wsum vo"
        by (rule wsum_replace [OF Some])
      moreover have "hsum (obj_replace ''aggregation'' ?a' vo) = hsum vo"
        by (rule hsum_replace) simp
      moreover have "fst ` set (obj_replace ''aggregation'' ?a' vo) = fst ` set vo"
        using keys_replace [of "''aggregation''" ?a' vo] by (metis list.set_map)
      ultimately show ?thesis
        unfolding v' \<open>v = JObject vo\<close> weight_JObject by simp
    qed (use c \<open>v = JObject vo\<close> Some in \<open>simp_all add: convert_slot_def obj_find_def\<close>)
  qed
qed (simp_all add: convert_slot_def)

lemma weight_member: "(k, v) \<in> set ob \<Longrightarrow> weight v < weight (JObject ob)"
proof -
  assume "(k, v) \<in> set ob"
  then have "weight v \<le> wsum ob"
    unfolding wsum_def by (induction ob) auto
  then show ?thesis unfolding weight_JObject by simp
qed

lemma weight_element: "v \<in> set a \<Longrightarrow> weight v < weight (JArray a)"
proof -
  assume "v \<in> set a"
  then have "weight v \<le> sum_list (map weight a)"
    by (induction a) auto
  then show ?thesis by simp
qed

lemma wsum_mono:
  "list_all2 (\<lambda>x y. weight (snd y) \<le> weight (snd x)) xs ys \<Longrightarrow> wsum ys \<le> wsum xs"
  unfolding wsum_def by (induction rule: list_all2_induct) auto

function (sequential) RewriteAggregationsInternal :: "Json \<Rightarrow> error + Json" where
  "RewriteAggregationsInternal (JObject ob) =
     bindE (mapE convert_entry ob) (\<lambda>ob1.
     bindE (mapE (\<lambda>kv. if is_object (snd kv) \<or> is_array (snd kv)
                        then bindE (RewriteAggregationsInternal (snd kv)) (\<lambda>v'. Inr (fst kv, v'))
                        else Inr kv) ob1) (\<lambda>ob2.
     Inr (JObject ob2)))"
| "RewriteAggregationsInternal (JArray a) =
     bindE (mapE (\<lambda>v. if is_object v \<or> is_array v then RewriteAggregationsInternal v else Inr v) a)
       (\<lambda>a'. Inr (JArray a'))"
| "RewriteAggregationsInternal node = Inr node"
  by pat_completeness auto

termination RewriteAggregationsInternal
proof (relation "measure weight")
  show "wf (measure weight)" by simp
next
  fix ob ob1 kv
  assume m: "mapE convert_entry ob = Inr ob1" and kv: "kv \<in> set ob1"
  from m have "list_all2 (\<lambda>x y. convert_entry x = Inr y) ob ob1"
    by (simp add: mapE_Inr_iff)
  then have l: "length ob = length ob1" "\<forall>i<length ob. convert_entry (ob ! i) = Inr (ob1 ! i)"
    by (simp_all add: list_all2_conv_all_nth)
  from kv obtain i where i: "i < length ob1" "kv = ob1 ! i"
    by (auto simp: in_set_conv_nth)
  define x where "x = ob ! i"
  have x: "x \<in> set ob" "convert_entry x = Inr kv"
    using l i by (simp_all add: x_def)
  then have "weight (snd kv) \<le> weight (snd x)"
    by (auto simp: convert_entry_def bindE_Inr_iff dest: weight_convert_slot)
  moreover have "weight (snd x) < weight (JObject ob)"
    using x(1) weight_member [of "fst x" "snd x" ob] by simp
  ultimately show "(snd kv, JObject ob) \<in> measure weight" by simp
next
  fix a :: "Json list" and v
  assume "v \<in> set a"
  then show "(v, JArray a) \<in> measure weight"
    by (simp add: weight_element del: weight.simps)
qed


definition RewriteAggregationsAsExpressions :: "Json \<Rightarrow> error + Json" where
  "RewriteAggregationsAsExpressions rules = RewriteAggregationsInternal rules"

fun get_object :: "Json \<Rightarrow> JsonObject option" where
  "get_object (JObject ob) = Some ob"
| "get_object _ = None"

fun get_string :: "Json \<Rightarrow> string option" where
  "get_string (JString s) = Some s"
| "get_string _ = None"

fun get_singleton :: "Json \<Rightarrow> Json option" where
  "get_singleton (JArray [x]) = Some x"
| "get_singleton _ = None"

definition aggregation_call_parts :: "Json \<Rightarrow> (string \<times> Json \<times> Json) option" where
  "aggregation_call_parts e =
     Option.bind (get_object e) (\<lambda>eo.
     Option.bind (map_of eo ''expression_heritage'') (\<lambda>h.
     Option.bind (Option.bind (map_of eo ''call'') get_object) (\<lambda>co.
     Option.bind (Option.bind (map_of co ''predicate_name'') get_string) (\<lambda>p.
     Option.bind (Option.bind (map_of co ''record'') get_object) (\<lambda>ro.
     Option.bind (Option.bind (Option.bind (map_of ro ''field_value'') get_singleton) get_object) (\<lambda>fo.
     Option.bind (Option.bind (map_of fo ''value'') get_object) (\<lambda>vo.
     Option.bind (map_of vo ''expression'') (\<lambda>arg. Some (p, arg, h)))))))))"

definition is_aggregation_call :: "Json \<Rightarrow> bool" where
  "is_aggregation_call e =
     (case aggregation_call_parts e of
        Some (p, arg, h) \<Rightarrow> e = aggregation_call p arg h
      | None \<Rightarrow> False)"

definition slot_converted :: "Json \<Rightarrow> bool" where
  "slot_converted v =
     (case v of
        JObject vo \<Rightarrow>
          (case obj_find ''aggregation'' vo of
             Some (JObject ao) \<Rightarrow>
               \<not> obj_count ''operator'' ao \<and> \<not> obj_count ''argument'' ao \<and>
               (case obj_find ''expression'' ao of
                  Some e \<Rightarrow> is_aggregation_call e
                | None \<Rightarrow> False)
           | _ \<Rightarrow> True)
      | _ \<Rightarrow> True)"

fun slots_converted :: "Json \<Rightarrow> bool" where
  "slots_converted (JObject ob) =
     (\<forall>kv \<in> set ob. slot_converted (snd kv) \<and> slots_converted (snd kv))"
| "slots_converted (JArray a) = (\<forall>v \<in> set a. slots_converted v)"
| "slots_converted _ = True"

lemma is_aggregation_call_iff:
  "is_aggregation_call e \<longleftrightarrow> (\<exists>p arg h. e = aggregation_call p arg h)"
proof
  assume "is_aggregation_call e"
  then show "\<exists>p arg h. e = aggregation_call p arg h"
    by (auto simp: is_aggregation_call_def split: option.splits)
next
  assume "\<exists>p arg h. e = aggregation_call p arg h"
  then obtain p arg h where e: "e = aggregation_call p arg h" by blast
  have "aggregation_call_parts (aggregation_call p arg h) = Some (p, arg, h)"
    by (simp add: aggregation_call_parts_def aggregation_call_def)
  then show "is_aggregation_call e"
    by (simp add: is_aggregation_call_def e)
qed

lemma Rewrite_atom:
  "\<not> is_object v \<Longrightarrow> \<not> is_array v \<Longrightarrow> RewriteAggregationsInternal v = Inr v"
  by (cases v) simp_all

lemma if_composite:
  "(if is_object v \<or> is_array v then RewriteAggregationsInternal v else Inr v)
     = RewriteAggregationsInternal v"
  by (simp add: Rewrite_atom)

definition rewritten :: "Json \<Rightarrow> Json \<Rightarrow> bool" where
  "rewritten v v2 = (\<exists>v1. convert_slot v = Inr v1 \<and> RewriteAggregationsInternal v1 = Inr v2)"

lemma Rewrite_JObject_Inr:
  "RewriteAggregationsInternal (JObject ob) = Inr j \<longleftrightarrow>
     (\<exists>ob2. j = JObject ob2 \<and> list_all2 (\<lambda>x y. fst y = fst x \<and> rewritten (snd x) (snd y)) ob ob2)"
proof -
  let ?P = "\<lambda>x y. convert_entry x = Inr y"
  let ?Q = "\<lambda>kv y. (if is_object (snd kv) \<or> is_array (snd kv)
                        then bindE (RewriteAggregationsInternal (snd kv)) (\<lambda>v'. Inr (fst kv, v'))
                        else Inr kv) = Inr y"
  have "(?P OO ?Q) = (\<lambda>x y. fst y = fst x \<and> rewritten (snd x) (snd y))"
    by (auto simp: fun_eq_iff OO_def convert_entry_def bindE_Inr_iff rewritten_def Rewrite_atom
        split: if_splits)
  then have "list_all2 (\<lambda>x y. fst y = fst x \<and> rewritten (snd x) (snd y)) = list_all2 ?P OO list_all2 ?Q"
    by (simp add: list.rel_compp [symmetric])
  then show ?thesis
    by (auto simp: bindE_Inr_iff mapE_Inr_iff OO_def)
qed

lemma Rewrite_JArray_Inr:
  "RewriteAggregationsInternal (JArray a) = Inr j \<longleftrightarrow>
     (\<exists>a2. j = JArray a2 \<and> list_all2 (\<lambda>v v2. RewriteAggregationsInternal v = Inr v2) a a2)"
  by (auto simp: bindE_Inr_iff mapE_Inr_iff if_composite)

lemma convert_slot_cases:
  assumes "convert_slot v = Inr v1"
  shows "v1 = v \<or> (\<exists>vo a'. v = JObject vo \<and> v1 = JObject (obj_replace ''aggregation'' a' vo))"
  using assms
  by (auto simp: convert_slot_def bindE_Inr_iff split: Json.splits option.splits)

lemma list_all2_map_of:
  "list_all2 (\<lambda>x y. fst y = fst x \<and> P (snd x) (snd y)) xs ys \<Longrightarrow>
     rel_option P (map_of xs k) (map_of ys k)"
  by (induction rule: list_all2_induct) auto

lemma list_all2_keys:
  "list_all2 (\<lambda>x y. fst y = fst x \<and> P (snd x) (snd y)) xs ys \<Longrightarrow> map fst ys = map fst xs"
  by (induction rule: list_all2_induct) auto

lemma map_of_replace:
  "map_of (obj_replace k v ob) k' = (if k' = k \<and> k \<in> fst ` set ob then Some v else map_of ob k')"
  by (induction ob) (force split: if_splits)+

lemma map_of_set: "map_of (obj_set k v ob) k' = (if k' = k then Some v else map_of ob k')"
  by (induction ob) auto

lemma obj_count_iff: "obj_count k ob \<longleftrightarrow> k \<in> fst ` set ob"
  by (simp add: obj_count_def obj_find_def map_of_eq_None_iff)

lemma convert_slot_aggregation_call:
  "convert_slot (aggregation_call p arg h) = Inr (aggregation_call p arg h)"
  by (simp add: convert_slot_def aggregation_call_def obj_find_def)

lemma convert_slot_no_aggregation:
  "map_of vo ''aggregation'' = None \<Longrightarrow> convert_slot (JObject vo) = Inr (JObject vo)"
  by (simp add: convert_slot_def obj_find_def)

lemma convert_slot_not_object: "\<not> is_object v \<Longrightarrow> convert_slot v = Inr v"
  by (cases v) (simp_all add: convert_slot_def)

lemma rewritten_no_aggregation:
  "map_of vo ''aggregation'' = None \<Longrightarrow>
     rewritten (JObject vo) y \<longleftrightarrow> RewriteAggregationsInternal (JObject vo) = Inr y"
  by (simp add: rewritten_def convert_slot_no_aggregation)

lemma rewritten_not_object_iff:
  "\<not> is_object v \<Longrightarrow> rewritten v y \<longleftrightarrow> RewriteAggregationsInternal v = Inr y"
  by (simp add: rewritten_def convert_slot_not_object)

lemma rewritten_not_object:
  "\<not> is_object v \<Longrightarrow> rewritten v v2 \<Longrightarrow> \<not> is_object v2"
  by (cases v) (auto simp: rewritten_not_object_iff Rewrite_JArray_Inr Rewrite_atom
      simp del: RewriteAggregationsInternal.simps)

lemma Rewrite_aggregation_call:
  assumes "RewriteAggregationsInternal (aggregation_call p arg h) = Inr e2"
  shows "is_aggregation_call e2"
proof -
  from assms obtain arg2 h2 where "e2 = aggregation_call p arg2 h2"
    unfolding aggregation_call_def
    by (auto simp: Rewrite_JObject_Inr Rewrite_JArray_Inr list_all2_Cons1
        rewritten_no_aggregation rewritten_not_object_iff Rewrite_atom
        simp del: RewriteAggregationsInternal.simps)
  then show ?thesis by (auto simp: is_aggregation_call_iff)
qed

declare RewriteAggregationsInternal.simps [simp del]

lemma slot_converted_convert_slot:
  assumes "convert_slot v = Inr v1"
  shows "slot_converted v1"
proof (cases v)
  case (JObject vo)
  show ?thesis
  proof (cases "map_of vo ''aggregation''")
    case None
    with assms JObject have "v1 = JObject vo"
      by (simp add: convert_slot_def obj_find_def)
    with None show ?thesis
      by (simp add: slot_converted_def obj_find_def)
  next
    case (Some a)
    then have k: "''aggregation'' \<in> fst ` set vo"
      using map_of_SomeD [OF Some] by force
    show ?thesis
    proof (cases a)
      case (JObject ao)
      with assms \<open>v = JObject vo\<close> Some obtain e where
        e: "AggregationConvert (JObject ao) = Inr e" and
        v1: "v1 = JObject (obj_replace ''aggregation''
                      (JObject (obj_set ''expression'' e
                         (obj_erase ''argument'' (obj_erase ''operator'' ao)))) vo)"
        by (auto simp: convert_slot_def obj_find_def bindE_Inr_iff)
      from e have "is_aggregation_call e"
        by (auto simp: AggregationConvert_Inr is_aggregation_call_iff)
      then show ?thesis
        unfolding v1 using k
        by (simp add: slot_converted_def obj_find_def map_of_replace map_of_set obj_count_iff
            keys_set keys_erase)
    next
      case JNull
      with assms \<open>v = JObject vo\<close> Some have "v1 = JObject vo"
        by (simp add: convert_slot_def obj_find_def)
      with Some JNull show ?thesis by (simp add: slot_converted_def obj_find_def)
    next
      case (JBool b)
      with assms \<open>v = JObject vo\<close> Some have "v1 = JObject vo"
        by (simp add: convert_slot_def obj_find_def)
      with Some JBool show ?thesis by (simp add: slot_converted_def obj_find_def)
    next
      case (JInt n)
      with assms \<open>v = JObject vo\<close> Some have "v1 = JObject vo"
        by (simp add: convert_slot_def obj_find_def)
      with Some JInt show ?thesis by (simp add: slot_converted_def obj_find_def)
    next
      case (JString x)
      with assms \<open>v = JObject vo\<close> Some have "v1 = JObject vo"
        by (simp add: convert_slot_def obj_find_def)
      with Some JString show ?thesis by (simp add: slot_converted_def obj_find_def)
    next
      case (JArray x)
      with assms \<open>v = JObject vo\<close> Some have "v1 = JObject vo"
        by (simp add: convert_slot_def obj_find_def)
      with Some JArray show ?thesis by (simp add: slot_converted_def obj_find_def)
    qed
  qed
next
  case JNull
  with assms have "v1 = JNull" by (simp add: convert_slot_def)
  then show ?thesis by (simp add: slot_converted_def)
next
  case (JBool b)
  with assms have "v1 = JBool b" by (simp add: convert_slot_def)
  then show ?thesis by (simp add: slot_converted_def)
next
  case (JInt n)
  with assms have "v1 = JInt n" by (simp add: convert_slot_def)
  then show ?thesis by (simp add: slot_converted_def)
next
  case (JString x)
  with assms have "v1 = JString x" by (simp add: convert_slot_def)
  then show ?thesis by (simp add: slot_converted_def)
next
  case (JArray x)
  with assms have "v1 = JArray x" by (simp add: convert_slot_def)
  then show ?thesis by (simp add: slot_converted_def)
qed

lemma rewritten_aggregation_call:
  "rewritten (aggregation_call p arg h) e2 \<Longrightarrow> is_aggregation_call e2"
  by (auto simp: rewritten_def convert_slot_aggregation_call dest: Rewrite_aggregation_call)

lemma rewritten_converted_aggregation:
  assumes "rewritten (JObject ao) a2"
    and "''operator'' \<notin> fst ` set ao" "''argument'' \<notin> fst ` set ao"
    and "map_of ao ''expression'' = Some e" "is_aggregation_call e"
  shows "\<exists>ao2 e2. a2 = JObject ao2 \<and> ''operator'' \<notin> fst ` set ao2 \<and> ''argument'' \<notin> fst ` set ao2
           \<and> map_of ao2 ''expression'' = Some e2 \<and> is_aggregation_call e2"
proof -
  from assms(1) obtain a1 where
    a1: "convert_slot (JObject ao) = Inr a1" "RewriteAggregationsInternal a1 = Inr a2"
    by (auto simp: rewritten_def)
  from convert_slot_cases [OF a1(1)] obtain ao1 where
    ao1: "a1 = JObject ao1" "map fst ao1 = map fst ao" "map_of ao1 ''expression'' = Some e"
    using assms(4) by (auto simp: keys_replace map_of_replace)
  from a1(2) ao1(1) obtain ao2 where
    ao2: "a2 = JObject ao2"
      "list_all2 (\<lambda>x y. fst y = fst x \<and> rewritten (snd x) (snd y)) ao1 ao2"
    by (auto simp: Rewrite_JObject_Inr)
  have keys: "fst ` set ao2 = fst ` set ao"
    using list_all2_keys [OF ao2(2)] ao1(2) by (metis list.set_map)
  from list_all2_map_of [OF ao2(2), of "''expression''"] ao1(3)
  obtain e2 where e2: "map_of ao2 ''expression'' = Some e2" "rewritten e e2"
    by (auto simp: option_rel_Some1)
  from assms(5) e2(2) have "is_aggregation_call e2"
    by (auto simp: is_aggregation_call_iff dest: rewritten_aggregation_call)
  with ao2(1) keys e2(1) assms(2,3) show ?thesis by simp
qed

lemma slot_converted_Rewrite:
  assumes "slot_converted v1" "RewriteAggregationsInternal v1 = Inr v2"
  shows "slot_converted v2"
proof (cases v1)
  case (JObject vo1)
  with assms(2) obtain vo2 where
    vo2: "v2 = JObject vo2"
      "list_all2 (\<lambda>x y. fst y = fst x \<and> rewritten (snd x) (snd y)) vo1 vo2"
    by (auto simp: Rewrite_JObject_Inr)
  note rel = list_all2_map_of [OF vo2(2), of "''aggregation''"]
  show ?thesis
  proof (cases "map_of vo1 ''aggregation''")
    case None
    with rel show ?thesis
      by (simp add: vo2(1) slot_converted_def obj_find_def)
  next
    case (Some a1)
    with rel obtain a2 where a2: "map_of vo2 ''aggregation'' = Some a2" "rewritten a1 a2"
      by (auto simp: option_rel_Some1)
    show ?thesis
    proof (cases "is_object a1")
      case False
      then have "\<not> is_object a2" using a2(2) by (rule rewritten_not_object)
      then show ?thesis
        by (cases a2) (simp_all add: vo2(1) slot_converted_def obj_find_def a2(1))
    next
      case True
      then obtain ao1 where ao1: "a1 = JObject ao1" by (cases a1) auto
      from assms(1) JObject Some ao1 obtain e where
        "''operator'' \<notin> fst ` set ao1" "''argument'' \<notin> fst ` set ao1"
        "map_of ao1 ''expression'' = Some e" "is_aggregation_call e"
        by (auto simp: slot_converted_def obj_find_def obj_count_iff split: option.splits)
      from rewritten_converted_aggregation [OF a2(2) [unfolded ao1] this]
      show ?thesis
        by (auto simp: vo2(1) slot_converted_def obj_find_def a2(1) obj_count_iff)
    qed
  qed
next
  case (JArray a)
  with assms(2) show ?thesis by (auto simp: Rewrite_JArray_Inr slot_converted_def)
qed (use assms in \<open>simp_all add: Rewrite_atom\<close>)

lemma list_all2_setD2: "list_all2 P xs ys \<Longrightarrow> y \<in> set ys \<Longrightarrow> \<exists>x \<in> set xs. P x y"
  by (induction rule: list_all2_induct) auto

lemma slots_converted_atom: "\<not> is_object v \<Longrightarrow> \<not> is_array v \<Longrightarrow> slots_converted v"
  by (cases v) simp_all

lemma slots_converted_Rewrite:
  "RewriteAggregationsInternal j = Inr j' \<Longrightarrow> slots_converted j'"
proof (induction j arbitrary: j' rule: RewriteAggregationsInternal.induct)
  case (1 ob)
  let ?rec = "\<lambda>kv. if is_object (snd kv) \<or> is_array (snd kv)
                    then bindE (RewriteAggregationsInternal (snd kv)) (\<lambda>v'. Inr (fst kv, v'))
                    else Inr kv"
  from "1.prems" obtain ob1 ob2 where
    ob1: "mapE convert_entry ob = Inr ob1" and
    ob2: "mapE ?rec ob1 = Inr ob2" and j': "j' = JObject ob2"
    by (auto simp: RewriteAggregationsInternal.simps bindE_Inr_iff)
  have "slot_converted (snd y) \<and> slots_converted (snd y)" if y: "y \<in> set ob2" for y
  proof -
    from ob2 y obtain kv where kv: "kv \<in> set ob1" "?rec kv = Inr y"
      by (auto simp: mapE_Inr_iff dest: list_all2_setD2)
    from ob1 kv(1) obtain x where x: "x \<in> set ob" "convert_entry x = Inr kv"
      by (auto simp: mapE_Inr_iff dest: list_all2_setD2)
    from x(2) have s: "slot_converted (snd kv)"
      by (auto simp: convert_entry_def bindE_Inr_iff dest: slot_converted_convert_slot)
    show ?thesis
    proof (cases "is_object (snd kv) \<or> is_array (snd kv)")
      case True
      with kv(2) have r: "RewriteAggregationsInternal (snd kv) = Inr (snd y)"
        by (auto simp: bindE_Inr_iff)
      from "1.IH" [OF ob1 kv(1) True r] slot_converted_Rewrite [OF s r]
      show ?thesis by simp
    next
      case False
      with kv(2) have "y = kv" by simp
      with s False show ?thesis by (simp add: slots_converted_atom)
    qed
  qed
  then show ?case by (simp add: j')
next
  case (2 a)
  let ?rec = "\<lambda>v. if is_object v \<or> is_array v then RewriteAggregationsInternal v else Inr v"
  from "2.prems" obtain a2 where a2: "mapE ?rec a = Inr a2" and j': "j' = JArray a2"
    by (auto simp: RewriteAggregationsInternal.simps bindE_Inr_iff)
  have "slots_converted y" if y: "y \<in> set a2" for y
  proof -
    from a2 y obtain v where v: "v \<in> set a" "?rec v = Inr y"
      by (auto simp: mapE_Inr_iff dest: list_all2_setD2)
    show ?thesis
    proof (cases "is_object v \<or> is_array v")
      case True
      with v(2) have "RewriteAggregationsInternal v = Inr y" by simp
      from "2.IH" [OF v(1) True this] show ?thesis .
    next
      case False
      with v(2) show ?thesis by (auto simp: slots_converted_atom)
    qed
  qed
  then show ?case by (simp add: j')
qed (auto simp: RewriteAggregationsInternal.simps)

fun contains_key :: "string \<Rightarrow> Json \<Rightarrow> bool" where
  "contains_key k (JObject ob) = (k \<in> fst ` set ob \<or> (\<exists>kv \<in> set ob. contains_key k (snd kv)))"
| "contains_key k (JArray a) = (\<exists>v \<in> set a. contains_key k v)"
| "contains_key k _ = False"

definition variable_x :: Json where
  "variable_x = JObject [(''expression_heritage'', JString ''x''),
                         (''variable'', JObject [(''var_name'', JString ''x'')])]"

definition predicate_P_x :: Json where
  "predicate_P_x = JObject [(''predicate'', JObject [(''predicate_name'', JString ''P''),
      (''record'', JObject [(''field_value'',
         JArray [JObject [(''field'', JInt 0), (''value'', JObject [(''expression'', variable_x)])]])])])]"

definition rule_Q_Max :: Json where
  "rule_Q_Max = JObject [
     (''body'', JObject [(''conjunction'', JObject [(''conjunct'', JArray [predicate_P_x])])]),
     (''distinct_denoted'', JBool True),
     (''full_text'', JString ''Q(y? Max= x) distinct :- P(x)''),
     (''head'', JObject [(''predicate_name'', JString ''Q''),
        (''record'', JObject [(''field_value'',
           JArray [JObject [(''field'', JString ''y''),
              (''value'', JObject [(''aggregation'',
                 JObject [(''argument'', variable_x),
                          (''expression_heritage'', JString ''Max= x''),
                          (''operator'', JString ''Max'')])])]])])])]"

definition rule_Q_Max_rewritten :: Json where
  "rule_Q_Max_rewritten = JObject [
     (''body'', JObject [(''conjunction'', JObject [(''conjunct'', JArray [predicate_P_x])])]),
     (''distinct_denoted'', JBool True),
     (''full_text'', JString ''Q(y? Max= x) distinct :- P(x)''),
     (''head'', JObject [(''predicate_name'', JString ''Q''),
        (''record'', JObject [(''field_value'',
           JArray [JObject [(''field'', JString ''y''),
              (''value'', JObject [(''aggregation'',
                 JObject [(''expression'', aggregation_call ''Max'' variable_x (JString ''Max= x'')),
                          (''expression_heritage'', JString ''Max= x'')])])]])])])]"


lemma Rewrite_rule_Q_Max:
  "RewriteAggregationsAsExpressions (JArray [rule_Q_Max]) = Inr (JArray [rule_Q_Max_rewritten])"
  by (simp add: RewriteAggregationsAsExpressions_def RewriteAggregationsInternal.simps
      rule_Q_Max_def rule_Q_Max_rewritten_def predicate_P_x_def variable_x_def
      convert_entry_def convert_slot_def AggregationConvert_def AggregationOperator_def
      obj_find_def obj_at_def obj_erase_def aggregation_call_def)




subsection \<open>Disjunctive normal form\<close>

text \<open>\<^verbatim>\<open>using Dnf = std::vector<std::vector<Json>>\<close>: a disjunction of conjunct lists.\<close>

type_synonym Dnf = "Json list list"

fun conjunction_of_dnfs :: "Dnf list \<Rightarrow> Dnf" where
  "conjunction_of_dnfs [] = [[]]"
| "conjunction_of_dnfs [d] = d"
| "conjunction_of_dnfs (first # rest) =
     concat (map (\<lambda>a. map (\<lambda>b. a @ b) (conjunction_of_dnfs rest)) first)"

function proposition_to_dnf :: "Json \<Rightarrow> error + Dnf" where
  "proposition_to_dnf prop =
     (if HasKey prop ''conjunction'' then
        bindE (as_object prop) (\<lambda>po.
        bindE (obj_at ''conjunction'' po) (\<lambda>c.
        bindE (as_object c) (\<lambda>co.
        bindE (obj_at ''conjunct'' co) (\<lambda>cj.
        bindE (as_array cj) (\<lambda>cs.
        bindE (mapE proposition_to_dnf cs) (\<lambda>dnfs.
        Inr (conjunction_of_dnfs dnfs)))))))
      else if HasKey prop ''disjunction'' then
        bindE (as_object prop) (\<lambda>po.
        bindE (obj_at ''disjunction'' po) (\<lambda>d.
        bindE (as_object d) (\<lambda>dob.
        bindE (obj_at ''disjunct'' dob) (\<lambda>dj.
        bindE (as_array dj) (\<lambda>ds.
        bindE (mapE proposition_to_dnf ds) (\<lambda>dds.
        Inr (concat dds)))))))
      else Inr [[prop]])"
  by pat_completeness auto

lemma weight_map_of: "map_of ob k = Some v \<Longrightarrow> weight v < weight (JObject ob)"
  using map_of_SomeD weight_member by fast

termination proposition_to_dnf
proof (relation "measure weight")
  show "wf (measure weight)" by simp
next
  fix p po c co cj cs x
  assume "as_object p = Inr po" "obj_at ''conjunction'' po = Inr c" "as_object c = Inr co"
    "obj_at ''conjunct'' co = Inr cj" "as_array cj = Inr cs" "x \<in> set cs"
  then have "weight x < weight (JArray cs)" "weight (JArray cs) < weight (JObject co)"
    "weight (JObject co) < weight (JObject po)" "p = JObject po"
    by (simp_all add: weight_element weight_map_of del: weight.simps)
  then show "(x, p) \<in> measure weight" by simp
next
  fix p po c co cj cs x
  assume "as_object p = Inr po" "obj_at ''disjunction'' po = Inr c" "as_object c = Inr co"
    "obj_at ''disjunct'' co = Inr cj" "as_array cj = Inr cs" "x \<in> set cs"
  then have "weight x < weight (JArray cs)" "weight (JArray cs) < weight (JObject co)"
    "weight (JObject co) < weight (JObject po)" "p = JObject po"
    by (simp_all add: weight_element weight_map_of del: weight.simps)
  then show "(x, p) \<in> measure weight" by simp
qed

declare proposition_to_dnf.simps [simp del]

text \<open>The body of the loop of \<^verbatim>\<open>DnfRewrite\<close>: the rules one rule becomes.\<close>

definition dnf_rules :: "Json \<Rightarrow> error + Json list" where
  "dnf_rules rule =
     (if \<not> HasKey rule ''body'' then Inr [rule]
      else
        bindE (as_object rule) (\<lambda>ro.
        bindE (obj_at ''body'' ro) (\<lambda>body.
        bindE (proposition_to_dnf body) (\<lambda>dnf.
        Inr (map (\<lambda>conjuncts. JObject (obj_set ''body'' (conjunction_node conjuncts) ro)) dnf)))))"

definition DnfRewrite :: "Json \<Rightarrow> error + Json" where
  "DnfRewrite rules_json =
     bindE (as_array rules_json) (\<lambda>rules.
     bindE (mapE dnf_rules rules) (\<lambda>outs.
     Inr (JArray (concat outs))))"

text \<open>A proposition that is neither a conjunction nor a disjunction node.\<close>

definition dnf_leaf :: "Json \<Rightarrow> bool" where
  "dnf_leaf p = (\<not> HasKey p ''conjunction'' \<and> \<not> HasKey p ''disjunction'')"

text \<open>The conjuncts of a node that is exactly \<^verbatim>\<open>{conjunction: {conjunct: [...]}}\<close>.\<close>

definition conjuncts_of :: "Json \<Rightarrow> Json list option" where
  "conjuncts_of b =
     (case b of
        JObject [(k, JObject [(k', JArray cjs)])] \<Rightarrow>
          if k = ''conjunction'' \<and> k' = ''conjunct'' then Some cjs else None
      | _ \<Rightarrow> None)"

definition rule_in_dnf :: "Json \<Rightarrow> bool" where
  "rule_in_dnf rule =
     (case rule of
        JObject ro \<Rightarrow>
          (case obj_find ''body'' ro of
             None \<Rightarrow> True
           | Some b \<Rightarrow> (case conjuncts_of b of None \<Rightarrow> False | Some cjs \<Rightarrow> list_all dnf_leaf cjs))
      | _ \<Rightarrow> True)"

lemma conjuncts_of_conjunction_node [simp]: "conjuncts_of (conjunction_node cjs) = Some cjs"
  by (simp add: conjuncts_of_def conjunction_node_def)

lemma conjunction_of_dnfs_leaves:
  "\<forall>d \<in> set dnfs. \<forall>cjs \<in> set d. list_all dnf_leaf cjs \<Longrightarrow>
     \<forall>cjs \<in> set (conjunction_of_dnfs dnfs). list_all dnf_leaf cjs"
  by (induction dnfs rule: conjunction_of_dnfs.induct) auto

lemma proposition_to_dnf_leaves:
  "proposition_to_dnf p = Inr dnf \<Longrightarrow> \<forall>cjs \<in> set dnf. list_all dnf_leaf cjs"
proof (induction p arbitrary: dnf rule: proposition_to_dnf.induct)
  case (1 p)
  show ?case
  proof (cases "HasKey p ''conjunction''")
    case True
    with "1.prems" obtain po c co cj cs dnfs where
      a: "as_object p = Inr po" "obj_at ''conjunction'' po = Inr c" "as_object c = Inr co"
         "obj_at ''conjunct'' co = Inr cj" "as_array cj = Inr cs" and
      m: "mapE proposition_to_dnf cs = Inr dnfs" and d: "dnf = conjunction_of_dnfs dnfs"
      by (subst (asm) proposition_to_dnf.simps) (auto simp: bindE_Inr_iff)
    have "\<forall>cjs \<in> set d. list_all dnf_leaf cjs" if "d \<in> set dnfs" for d
    proof -
      from m that obtain x where "x \<in> set cs" "proposition_to_dnf x = Inr d"
        by (auto simp: mapE_Inr_iff dest: list_all2_setD2)
      then show ?thesis using "1.IH"(1) [OF True a] by blast
    qed
    then show ?thesis unfolding d by (intro conjunction_of_dnfs_leaves) blast
  next
    case False
    note nc = this
    show ?thesis
    proof (cases "HasKey p ''disjunction''")
      case True
      with nc "1.prems" obtain po c co cj cs dnfs where
        a: "as_object p = Inr po" "obj_at ''disjunction'' po = Inr c" "as_object c = Inr co"
           "obj_at ''disjunct'' co = Inr cj" "as_array cj = Inr cs" and
        m: "mapE proposition_to_dnf cs = Inr dnfs" and d: "dnf = concat dnfs"
        by (subst (asm) proposition_to_dnf.simps) (auto simp: bindE_Inr_iff)
      have "\<forall>cjs \<in> set d. list_all dnf_leaf cjs" if "d \<in> set dnfs" for d
      proof -
        from m that obtain x where "x \<in> set cs" "proposition_to_dnf x = Inr d"
          by (auto simp: mapE_Inr_iff dest: list_all2_setD2)
        then show ?thesis using "1.IH"(2) [OF nc True a] by blast
      qed
      then show ?thesis unfolding d by auto
    next
      case False
      with nc "1.prems" have "dnf = [[p]]"
        by (subst (asm) proposition_to_dnf.simps) simp
      with nc False show ?thesis by (simp add: dnf_leaf_def)
    qed
  qed
qed

lemma dnf_rules_in_dnf:
  assumes "dnf_rules rule = Inr rs" "r \<in> set rs"
  shows "rule_in_dnf r"
proof (cases "HasKey rule ''body''")
  case False
  with assms have "r = rule" by (auto simp: dnf_rules_def)
  with False show ?thesis
    by (auto simp: rule_in_dnf_def HasKey_def obj_count_def split: Json.splits option.splits)
next
  case True
  with assms obtain ro body dnf cjs where
    "proposition_to_dnf body = Inr dnf" "cjs \<in> set dnf"
    "r = JObject (obj_set ''body'' (conjunction_node cjs) ro)"
    by (auto simp: dnf_rules_def bindE_Inr_iff)
  then show ?thesis
    using proposition_to_dnf_leaves [of body dnf]
    by (auto simp: rule_in_dnf_def obj_find_def map_of_set)
qed

lemma DnfRewrite_in_dnf:
  assumes "DnfRewrite rules = Inr out"
  shows "\<exists>rs. out = JArray rs \<and> (\<forall>r \<in> set rs. rule_in_dnf r)"
proof -
  from assms obtain rl outs where
    o: "mapE dnf_rules rl = Inr outs" "out = JArray (concat outs)"
    by (auto simp: DnfRewrite_def bindE_Inr_iff)
  have "rule_in_dnf r" if "r \<in> set (concat outs)" for r
  proof -
    from that obtain rs where rs: "rs \<in> set outs" "r \<in> set rs" by auto
    with o(1) obtain rule where "dnf_rules rule = Inr rs"
      by (auto simp: mapE_Inr_iff dest: list_all2_setD2)
    then show ?thesis using rs(2) by (rule dnf_rules_in_dnf)
  qed
  with o(2) show ?thesis by simp
qed

definition strip_body :: "Json \<Rightarrow> Json" where
  "strip_body rule = (case rule of JObject ro \<Rightarrow> JObject (obj_erase ''body'' ro) | _ \<Rightarrow> rule)"

lemma obj_erase_obj_set: "obj_erase k (obj_set k v ob) = obj_erase k ob"
  by (induction ob) (auto simp: obj_erase_def)

lemma dnf_rules_metadata:
  assumes "dnf_rules rule = Inr rs" "r \<in> set rs"
  shows "strip_body r = strip_body rule"
proof (cases "HasKey rule ''body''")
  case False
  with assms show ?thesis by (auto simp: dnf_rules_def)
next
  case True
  with assms show ?thesis
    by (auto simp: dnf_rules_def bindE_Inr_iff strip_body_def obj_erase_obj_set)
qed

definition call_1 :: "string \<Rightarrow> Json \<Rightarrow> Json" where
  "call_1 p arg = JObject [(''predicate_name'', JString p),
      (''record'', JObject [(''field_value'',
         JArray [JObject [(''field'', JInt 0), (''value'', JObject [(''expression'', arg)])]])])]"

definition negated_disjunction :: Json where
  "negated_disjunction =
     NegationTree (SpanString3 ''Q(x) :- ~(A(x) | B(x))'' 8 22)
       (conjunction_node [JObject [(''disjunction'', JObject [(''disjunct'',
          JArray [JObject [(''predicate'', call_1 ''A'' variable_x)],
                  JObject [(''predicate'', call_1 ''B'' variable_x)]])])]])"

definition rule_Q_negation :: "Json \<Rightarrow> Json" where
  "rule_Q_negation body = JObject [
     (''body'', body),
     (''full_text'', JString ''Q(x) :- ~(A(x) | B(x))''),
     (''head'', call_1 ''Q'' variable_x)]"

definition rule_Q_A_or_B :: Json where
  "rule_Q_A_or_B = JObject [
     (''body'', JObject [(''disjunction'', JObject [(''disjunct'',
          JArray [JObject [(''predicate'', call_1 ''A'' variable_x)],
                  JObject [(''predicate'', call_1 ''B'' variable_x)]])])]),
     (''full_text'', JString ''Q(x) :- A(x) | B(x)''),
     (''head'', call_1 ''Q'' variable_x)]"

lemma HasKey_simps [simp]:
  "HasKey (JObject ob) k = (map_of ob k \<noteq> None)"
  "HasKey JNull k = False" "HasKey (JBool b) k = False" "HasKey (JInt n) k = False"
  "HasKey (JString s) k = False" "HasKey (JArray a) k = False"
  by (simp_all add: HasKey_def obj_count_def obj_find_def)

lemma DnfRewrite_rule_Q_negation:
  "DnfRewrite (JArray [rule_Q_negation negated_disjunction])
     = Inr (JArray [rule_Q_negation (conjunction_node [negated_disjunction])])"
  by (simp add: DnfRewrite_def dnf_rules_def rule_Q_negation_def negated_disjunction_def
      NegationTree_def obj_at_def obj_find_def proposition_to_dnf.simps)

lemma DnfRewrite_rule_Q_A_or_B:
  "DnfRewrite (JArray [rule_Q_A_or_B])
     = Inr (JArray [
         JObject [(''body'', conjunction_node [JObject [(''predicate'', call_1 ''A'' variable_x)]]),
                  (''full_text'', JString ''Q(x) :- A(x) | B(x)''),
                  (''head'', call_1 ''Q'' variable_x)],
         JObject [(''body'', conjunction_node [JObject [(''predicate'', call_1 ''B'' variable_x)]]),
                  (''full_text'', JString ''Q(x) :- A(x) | B(x)''),
                  (''head'', call_1 ''Q'' variable_x)]])"
  by (simp add: DnfRewrite_def dnf_rules_def rule_Q_A_or_B_def obj_at_def obj_find_def call_1_def
      proposition_to_dnf.simps)




subsection \<open>Aggregation over several bodies\<close>

definition at_key :: "string \<Rightarrow> Json \<Rightarrow> error + Json" where
  "at_key k j = bindE (as_object j) (obj_at k)"

definition head_name :: "Json \<Rightarrow> error + string" where
  "head_name rule =
     bindE (at_key ''head'' rule) (\<lambda>h. bindE (at_key ''predicate_name'' h) as_string)"

definition variable_node :: "Json \<Rightarrow> Json" where
  "variable_node field = JObject [(''variable'', JObject [(''var_name'', field)])]"

text \<open>\<^verbatim>\<open>std::map\<close> with other values than JSON: the same association lists.\<close>

fun assign :: "string \<Rightarrow> 'v \<Rightarrow> (string \<times> 'v) list \<Rightarrow> (string \<times> 'v) list" where
  "assign k v [] = [(k, v)]"
| "assign k v ((k', v') # m) =
     (if k = k' then (k, v) # m
      else if k < k' then (k, v) # (k', v') # m
      else (k', v') # assign k v m)"

definition StripAggregationHeritage :: "Json \<Rightarrow> error + Json" where
  "StripAggregationHeritage field_values =
     bindE (as_array field_values) (\<lambda>fvs.
     bindE (mapE (\<lambda>fv.
              bindE (as_object fv) (\<lambda>fvo.
              bindE (obj_at ''value'' fvo) (\<lambda>v.
              bindE (as_object v) (\<lambda>vobj.
              if obj_count ''aggregation'' vobj then
                bindE (obj_at ''aggregation'' vobj) (\<lambda>a.
                bindE (as_object a) (\<lambda>ao.
                Inr (JObject (obj_replace ''value''
                  (JObject (obj_replace ''aggregation''
                     (JObject (obj_erase ''expression_heritage'' ao)) vobj)) fvo))))
              else Inr fv)))) fvs) (\<lambda>fvs'.
     Inr (JArray fvs')))"

text \<open>
  The loop of \<^verbatim>\<open>split_aggregation\<close> over one field value: what it appends to
  \<^verbatim>\<open>aggregation\<close> and to \<^verbatim>\<open>transformation\<close>.
\<close>

definition split_field_value :: "Json \<Rightarrow> error + Json \<times> Json" where
  "split_field_value fv =
     bindE (as_object fv) (\<lambda>fvo.
     bindE (obj_at ''field'' fvo) (\<lambda>field.
     bindE (obj_at ''value'' fvo) (\<lambda>v.
     bindE (as_object v) (\<lambda>vo.
     if obj_count ''aggregation'' vo then
       bindE (obj_at ''aggregation'' vo) (\<lambda>a.
       bindE (as_object a) (\<lambda>ao.
       bindE (obj_at ''operator'' ao) (\<lambda>op.
       bindE (obj_at ''expression_heritage'' ao) (\<lambda>h.
       bindE (obj_at ''argument'' ao) (\<lambda>argument.
       Inr (field_value field (JObject [(''aggregation'',
              JObject [(''argument'', variable_node field), (''expression_heritage'', h),
                       (''operator'', op)])]),
            field_value field (expression_value argument)))))))
     else
       Inr (field_value field (expression_value (variable_node field)), fv)))))"

definition split_aggregation :: "Json \<Rightarrow> error + Json \<times> Json" where
  "split_aggregation rule =
     bindE (as_object rule) (\<lambda>ro.
     if \<not> obj_count ''distinct_denoted'' ro then
       bindE (head_name rule) (\<lambda>name.
       throw ''Inconsistency in distinct denoting.'' (SpanString1 name))
     else
       let r = obj_erase ''distinct_denoted'' ro in
       bindE (obj_at ''head'' r) (\<lambda>h.
       bindE (as_object h) (\<lambda>ho.
       bindE (obj_at ''predicate_name'' ho) (\<lambda>pn.
       bindE (as_string pn) (\<lambda>name.
       let ho' = obj_replace ''predicate_name'' (JString (name @ ''_MultBodyAggAux'')) ho in
       bindE (obj_at ''record'' ho') (\<lambda>rc.
       bindE (as_object rc) (\<lambda>rco.
       bindE (obj_at ''field_value'' rco) (\<lambda>fva.
       bindE (as_array fva) (\<lambda>fvs.
       bindE (mapE split_field_value fvs) (\<lambda>pairs.
       Inr (JArray (map fst pairs),
            JObject (obj_replace ''head''
              (JObject (obj_replace ''record''
                 (JObject (obj_replace ''field_value'' (JArray (map snd pairs)) rco)) ho')) r))))))))))))"

text \<open>The names of the rules in order of first occurrence, each with its rules.\<close>

fun group_by_name :: "(string \<times> Json) list \<Rightarrow> (string \<times> Json list) list" where
  "group_by_name [] = []"
| "group_by_name ((name, r) # rest) =
     (name, r # map snd (filter (\<lambda>nr. fst nr = name) rest)) #
     group_by_name (filter (\<lambda>nr. fst nr \<noteq> name) rest)"

record MultiBody =
  new_rules :: "Json list"
  agg_fvs_per_pred :: "(string \<times> Json) list"
  original_full_text :: "(string \<times> string) list"

text \<open>
  The signatures of two bodies are compared through their printed forms
  (\<^verbatim>\<open>ToString(false)\<close>), which are equal exactly when the values are.
\<close>

definition multi_body_rule :: "string list \<Rightarrow> MultiBody \<Rightarrow> Json \<Rightarrow> error + MultiBody" where
  "multi_body_rule multi st rule =
     bindE (head_name rule) (\<lambda>name.
     bindE (at_key ''full_text'' rule) (\<lambda>ft.
     bindE (as_string ft) (\<lambda>full_text.
     let st1 = st\<lparr>original_full_text := assign name full_text (original_full_text st)\<rparr> in
     if name \<in> set multi then
       bindE (split_aggregation rule) (\<lambda>(aggregation_fvs, new_rule).
       case map_of (agg_fvs_per_pred st1) name of
         Some known \<Rightarrow>
           bindE (at_key ''field_value'' known) (\<lambda>kfv.
           bindE (StripAggregationHeritage kfv) (\<lambda>expected.
           bindE (StripAggregationHeritage aggregation_fvs) (\<lambda>observed.
           if expected \<noteq> observed then
             throw ''Signature differs for bodies.'' (SpanString1 full_text)
           else Inr (st1\<lparr>new_rules := new_rules st1 @ [new_rule]\<rparr>))))
       | None \<Rightarrow>
           Inr (st1\<lparr>agg_fvs_per_pred :=
                      assign name (JObject [(''field_value'', aggregation_fvs)]) (agg_fvs_per_pred st1),
                    new_rules := new_rules st1 @ [new_rule]\<rparr>))
     else Inr (st1\<lparr>new_rules := new_rules st1 @ [rule]\<rparr>))))"

definition aggregating_rule :: "MultiBody \<Rightarrow> string \<Rightarrow> error + Json" where
  "aggregating_rule st name =
     (case map_of (agg_fvs_per_pred st) name of
        None \<Rightarrow> Inl out_of_range
      | Some known \<Rightarrow>
          bindE (at_key ''field_value'' known) (\<lambda>fva.
          bindE (as_array fva) (\<lambda>agg_fvs.
          bindE (mapE (\<lambda>fv. bindE (at_key ''field'' fv) (\<lambda>field.
                   Inr (field_value field (expression_value (variable_node field))))) agg_fvs)
            (\<lambda>pass_fvs.
          Inr (JObject
            [(''body'', conjunction_node
               [JObject [(''predicate'',
                  call_node (name @ ''_MultBodyAggAux'') (record_node pass_fvs))]]),
             (''distinct_denoted'', JBool True),
             (''full_text'', JString (case map_of (original_full_text st) name of
                                        Some t \<Rightarrow> t | None \<Rightarrow> [])),
             (''head'', call_node name (record_node agg_fvs))])))))"

definition MultiBodyAggregationRewrite :: "Json \<Rightarrow> error + Json" where
  "MultiBodyAggregationRewrite rules_json =
     bindE (as_array rules_json) (\<lambda>rules.
     bindE (mapE (\<lambda>r. bindE (head_name r) (\<lambda>name. Inr (name, r))) rules) (\<lambda>named.
     let multi = map fst (filter (\<lambda>(n, rs). length rs > 1 \<and> HasKey (hd rs) ''distinct_denoted'')
                            (group_by_name named)) in
     bindE (foldE (multi_body_rule multi)
              \<lparr>new_rules = [], agg_fvs_per_pred = [], original_full_text = []\<rparr> rules) (\<lambda>st.
     bindE (mapE (aggregating_rule st) multi) (\<lambda>aggregating.
     Inr (JArray (new_rules st @ aggregating))))))"

subsection \<open>Annotations from denotations\<close>

definition shift_args :: "Json \<Rightarrow> error + Json" where
  "shift_args fvs =
     bindE (as_array fvs) (\<lambda>a.
     bindE (mapE (\<lambda>fv.
              bindE (as_object fv) (\<lambda>fvo.
              bindE (obj_at ''field'' fvo) (\<lambda>field.
              Inr (case field of
                     JInt n \<Rightarrow> JObject (obj_replace ''field'' (JInt (n + 1)) fvo)
                   | _ \<Rightarrow> fv)))) a) (\<lambda>a'.
     Inr (JArray a')))"

text \<open>One round of the loop: the rule with the arguments shifted, and the annotation.\<close>

definition annotation_of :: "JsonObject \<Rightarrow> string \<times> string \<Rightarrow> error + JsonObject \<times> Json list" where
  "annotation_of ro da =
     (let denotation = fst da; annotation = snd da in
      if \<not> obj_count denotation ro then Inr (ro, [])
      else
        bindE (obj_at denotation ro) (\<lambda>d.
        bindE (as_object d) (\<lambda>dob.
        bindE (obj_at ''field_value'' dob) (\<lambda>fv.
        bindE (shift_args fv) (\<lambda>shifted.
        let ro' = obj_replace denotation (JObject (obj_replace ''field_value'' shifted dob)) ro in
        bindE (obj_at ''full_text'' ro') (\<lambda>full_text.
        bindE (obj_at ''head'' ro') (\<lambda>h.
        bindE (at_key ''predicate_name'' h) (\<lambda>name.
        bindE (as_array shifted) (\<lambda>args.
        Inr (ro', [JObject
          [(''full_text'', full_text),
           (''head'', call_node annotation (record_node
              (field_value (JInt 0) (expression_value (the_predicate_literal name)) # args)))]]))))))))))"

definition AnnotationsFromDenotations :: "Json \<Rightarrow> error + Json \<times> Json list" where
  "AnnotationsFromDenotations rule =
     bindE (as_object rule) (\<lambda>ro.
     bindE (annotation_of ro (''orderby_denoted'', ''@OrderBy'')) (\<lambda>(ro1, a1).
     bindE (annotation_of ro1 (''limit_denoted'', ''@Limit'')) (\<lambda>(ro2, a2).
     Inr (JObject ro2, a1 @ a2))))"

section \<open>Files and imports\<close>

subsection \<open>Import statements\<close>

text \<open>\<^verbatim>\<open>haystack.find(needle, pos)\<close>, with \<open>None\<close> for \<^verbatim>\<open>npos\<close>.\<close>

fun find_at :: "string \<Rightarrow> string \<Rightarrow> nat \<Rightarrow> nat option" where
  "find_at needle [] i = (if needle = [] then Some i else None)"
| "find_at needle (c # cs) i =
     (if is_prefix needle (c # cs) then Some i else find_at needle cs (Suc i))"

definition find_str :: "string \<Rightarrow> string \<Rightarrow> nat \<Rightarrow> nat option" where
  "find_str haystack needle pos =
     (if pos > length haystack then None else find_at needle (drop pos haystack) pos)"

text \<open>
  \<^verbatim>\<open>while (std::getline(iss, tmp, delimiter)) parts.push_back(tmp);\<close> The last read fails
  when no character is left, so a text that ends with the delimiter has no empty last part.
\<close>

fun getlines :: "char \<Rightarrow> string \<Rightarrow> string \<Rightarrow> string list" where
  "getlines delimiter tmp [] = (if tmp = [] then [] else [tmp])"
| "getlines delimiter tmp (c # cs) =
     (if c = delimiter then tmp # getlines delimiter [] cs
      else getlines delimiter (tmp @ [c]) cs)"

definition SplitImport :: "string \<Rightarrow> error + string \<times> string \<times> string option" where
  "SplitImport import_str =
     bindE (case find_str import_str '' as '' 0 of
              None \<Rightarrow> Inr (import_str, None)
            | Some pos \<Rightarrow>
                if find_str import_str '' as '' (pos + 1) \<noteq> None then
                  throw ''Too many as'' (SpanString1 import_str)
                else Inr (take pos import_str, Some (drop (pos + 4) import_str)))
       (\<lambda>(import_path, synonym).
     let parts = getlines (CHR ''.'') [] import_path in
     if parts = [] \<or> last parts = [] \<or> \<not> isupper (hd (last parts)) then
       throw ''One import per predicate please.'' (SpanString1 import_str)
     else Inr (join ''.'' (butlast parts), last parts, synonym))"

subsection \<open>Renaming\<close>

text \<open>\<^verbatim>\<open>it->second = Json(new_name); count++;\<close> for one of the two keys.\<close>

definition rename_key ::
  "string \<Rightarrow> string \<Rightarrow> string \<Rightarrow> JsonObject \<Rightarrow> JsonObject \<times> nat" where
  "rename_key k old_name new_name ob =
     (if obj_find k ob = Some (JString old_name) then (obj_replace k (JString new_name) ob, 1)
      else (ob, 0))"

lemma obj_replace_member:
  "(k', v) \<in> set (obj_replace k x ob) \<Longrightarrow> (k', v) \<in> set ob \<or> v = x"
  by (induction ob) (auto split: if_splits)

lemma rename_key_member:
  "(k', v) \<in> set (fst (rename_key k old_name new_name ob)) \<Longrightarrow>
     (k', v) \<in> set ob \<or> v = JString new_name"
  using obj_replace_member [of k' v k "JString new_name" ob]
  by (auto simp: rename_key_def split: if_splits)

function RenamePredicate :: "Json \<Rightarrow> string \<Rightarrow> string \<Rightarrow> Json \<times> nat" where
  "RenamePredicate (JObject ob) old_name new_name =
     (let r1 = rename_key ''predicate_name'' old_name new_name ob;
          r2 = rename_key ''field'' old_name new_name (fst r1);
          rs = map (\<lambda>kv. if is_object (snd kv) \<or> is_array (snd kv) then
                            (let r = RenamePredicate (snd kv) old_name new_name
                             in ((fst kv, fst r), snd r))
                          else (kv, 0)) (fst r2)
      in (JObject (map fst rs), snd r1 + snd r2 + sum_list (map snd rs)))"
| "RenamePredicate (JArray a) old_name new_name =
     (let rs = map (\<lambda>v. if is_object v \<or> is_array v then RenamePredicate v old_name new_name
                         else (v, 0)) a
      in (JArray (map fst rs), sum_list (map snd rs)))"
| "RenamePredicate JNull old_name new_name = (JNull, 0)"
| "RenamePredicate (JBool b) old_name new_name = (JBool b, 0)"
| "RenamePredicate (JInt n) old_name new_name = (JInt n, 0)"
| "RenamePredicate (JString x) old_name new_name = (JString x, 0)"
  by pat_completeness auto
termination
proof (relation "measure (\<lambda>(e, old_name, new_name). weight e)")
  show "wf (measure (\<lambda>(e, old_name, new_name). weight e))" by simp
next
  fix ob :: JsonObject and old_name new_name :: string and r1 r2 kv
  assume r: "r1 = rename_key ''predicate_name'' old_name new_name ob"
    "r2 = rename_key ''field'' old_name new_name (fst r1)"
    and kv: "kv \<in> set (fst r2)" "is_object (snd kv) \<or> is_array (snd kv)"
  from kv(1) have "(fst kv, snd kv) \<in> set (fst r2)" by simp
  from rename_key_member [OF this [unfolded r(2)]] kv(2)
  have "(fst kv, snd kv) \<in> set (fst r1)" by auto
  from rename_key_member [OF this [unfolded r(1)]] kv(2)
  have "(fst kv, snd kv) \<in> set ob" by auto
  from weight_member [OF this]
  show "((snd kv, old_name, new_name), (JObject ob, old_name, new_name))
        \<in> measure (\<lambda>(e, old_name, new_name). weight e)" by simp
next
  fix a :: "Json list" and old_name new_name :: string and v
  assume "v \<in> set a"
  from weight_element [OF this]
  show "((v, old_name, new_name), (JArray a, old_name, new_name))
        \<in> measure (\<lambda>(e, old_name, new_name). weight e)" by simp
qed

subsection \<open>Predicates of a rule list\<close>

text \<open>A \<^verbatim>\<open>std::set<std::string>\<close> is the list of its elements in order.\<close>

definition string_set :: "string list \<Rightarrow> string list" where
  "string_set names = sort (remdups names)"

definition DefinedPredicates :: "Json list \<Rightarrow> error + string list" where
  "DefinedPredicates rules = bindE (mapE head_name rules) (\<lambda>names. Inr (string_set names))"

definition at_path :: "string list \<Rightarrow> Json \<Rightarrow> error + Json" where
  "at_path keys j = foldE (\<lambda>x k. at_key k x) j keys"

definition MadePredicates :: "Json list \<Rightarrow> error + string list" where
  "MadePredicates rules =
     bindE (mapE (\<lambda>r.
              bindE (head_name r) (\<lambda>name.
              if name = ''@Make'' then
                bindE (at_path [''head'', ''record'', ''field_value''] r) (\<lambda>fva.
                bindE (as_array fva) (\<lambda>fvs.
                if fvs = [] then Inl out_of_range
                else
                  bindE (at_path [''value'', ''expression'', ''literal'', ''the_predicate'',
                                  ''predicate_name''] (hd fvs)) (\<lambda>n.
                  bindE (as_string n) (\<lambda>made. Inr [made]))))
              else Inr [])) rules) (\<lambda>names.
     Inr (string_set (concat names)))"

subsection \<open>The state of a parse\<close>

text \<open>
  What the parse of a file reads and changes beside its arguments: the global
  \<^verbatim>\<open>TOO_MUCH\<close> (whether it is \<^verbatim>\<open>"fun"\<close>), and the two containers that \<^verbatim>\<open>ParseFile\<close>
  creates and every call gets by reference. After an exception no caller reads them.
\<close>

record FileState =
  incantation :: bool
  parsed_imports :: "(string \<times> Json) list"
  in_progress :: "string set"

type_synonym FileParser =
  "string \<Rightarrow> string \<Rightarrow> FileState \<Rightarrow> string list \<Rightarrow> string list \<Rightarrow> error + Json \<times> FileState"

text \<open>
  The file system is not part of the program: \<open>files path\<close> is the content read from
  \<open>path\<close> if \<^verbatim>\<open>std::filesystem::exists\<close>, and \<open>path_join\<close> is \<^verbatim>\<open>path(root) / rel\<close> on a
  POSIX system.
\<close>

definition path_join :: "string \<Rightarrow> string \<Rightarrow> string" where
  "path_join root rel =
     (if rel \<noteq> [] \<and> hd rel = CHR ''/'' then rel
      else if root = [] then rel
      else if last root = CHR ''/'' then root @ rel
      else root @ ''/'' @ rel)"

fun first_existing :: "(string \<Rightarrow> string option) \<Rightarrow> string list \<Rightarrow> string \<Rightarrow> string option" where
  "first_existing files [] rel = None"
| "first_existing files (root # roots) rel =
     (case files (path_join root rel) of
        Some file_content \<Rightarrow> Some file_content
      | None \<Rightarrow> first_existing files roots rel)"

definition ParseImport ::
  "(string \<Rightarrow> string option) \<Rightarrow> FileParser \<Rightarrow>
   string \<Rightarrow> FileState \<Rightarrow> string list \<Rightarrow> string list \<Rightarrow> error + Json \<times> FileState" where
  "ParseImport files parse_file file_import_str st import_chain import_root =
     (case map_of (parsed_imports st) file_import_str of
        Some parsed \<Rightarrow> Inr (parsed, st)
      | None \<Rightarrow>
          if file_import_str \<in> in_progress st then
            throw (''Circular imports are not allowed: '' @
                   concat (map (\<lambda>c. c @ ''->'') import_chain) @ file_import_str)
                  (SpanString1 file_import_str)
          else
            let st1 = st\<lparr>in_progress := insert file_import_str (in_progress st)\<rparr>;
                rel = join ''/'' (getlines (CHR ''.'') [] file_import_str) @ ''.l'';
                roots = (if import_root = [] then [[]] else import_root)
            in case first_existing files roots rel of
                 None \<Rightarrow>
                   throw (''Imported file not found: '' @ rel)
                     (slice (SpanString1 (''import '' @ file_import_str @ ''.<PREDICATE>''))
                        7 (7 + length file_import_str))
               | Some file_content \<Rightarrow>
                   bindE (parse_file file_content file_import_str st1 import_chain import_root)
                     (\<lambda>(parsed, st2).
                   Inr (parsed,
                        st2\<lparr>parsed_imports := assign file_import_str parsed (parsed_imports st2),
                            in_progress := in_progress st2 - {file_import_str}\<rparr>)))"

subsection \<open>One statement\<close>

record FileLoop =
  rules :: "Json list"
  imported_predicates :: "Json list"
  predicates_created_by_import :: "(string \<times> string list) list"
  file_state :: FileState

definition parse_import_statement ::
  "(string \<Rightarrow> FileState \<Rightarrow> error + Json \<times> FileState) \<Rightarrow> FileLoop \<Rightarrow> SpanString \<Rightarrow>
   error + FileLoop" where
  "parse_import_statement import_file L st =
     bindE (SplitImport (str (slice_from st (length ''import '')))) (\<lambda>(file_import_str, import_predicate, synonym).
     bindE (import_file file_import_str (file_state L)) (\<lambda>(parsed, st').
     let ip = JObject [(''file'', JString file_import_str),
                       (''predicate_name'', JString import_predicate),
                       (''synonym'', case synonym of Some y \<Rightarrow> JString y | None \<Rightarrow> JNull)]
     in
     bindE (if map_of (predicates_created_by_import L) file_import_str \<noteq> None then
              Inr (predicates_created_by_import L)
            else
              bindE (at_key ''rule'' parsed) (\<lambda>r.
              bindE (as_array r) (\<lambda>prules.
              bindE (DefinedPredicates prules) (\<lambda>def.
              bindE (MadePredicates prules) (\<lambda>made.
              Inr (assign file_import_str (string_set (def @ made))
                     (predicates_created_by_import L))))))) (\<lambda>created.
     Inr (L\<lparr>imported_predicates := imported_predicates L @ [ip],
            predicates_created_by_import := created,
            file_state := st'\<rparr>))))"

definition parse_rule_statement :: "Parsers \<Rightarrow> Json list \<Rightarrow> SpanString \<Rightarrow> error + Json list" where
  "parse_rule_statement P rules0 st =
     bindE (ParseFunctionRuleImpl P st) (\<lambda>ann.
     let rules1 = (case ann of Some ar \<Rightarrow> rules0 @ [fst ar] | None \<Rightarrow> rules0) in
     bindE (case ann of Some ar \<Rightarrow> Inr (Some (snd ar)) | None \<Rightarrow> ParseFunctorRule P st) (\<lambda>rule.
     case rule of
       Some r \<Rightarrow> Inr (rules1 @ [r])
     | None \<Rightarrow>
         bindE (ParseRule P st) (\<lambda>r.
         if is_null r then Inr rules1
         else
           bindE (AnnotationsFromDenotations r) (\<lambda>(r', anns).
           Inr (rules1 @ anns @ [r'])))))"

text \<open>
  One round of the loop over the statements. The parsers read the global \<^verbatim>\<open>TOO_MUCH\<close>
  as it is when the statement is parsed: \<open>make_parsers\<close> gives the parsers for a flag.
\<close>

definition parse_statement ::
  "(bool \<Rightarrow> Parsers) \<Rightarrow> (string \<Rightarrow> FileState \<Rightarrow> error + Json \<times> FileState) \<Rightarrow>
   FileLoop \<Rightarrow> SpanString \<Rightarrow> error + FileLoop" where
  "parse_statement make_parsers import_file L st =
     (if span_empty st then Inr L
      else if starts_with st ''import '' then parse_import_statement import_file L st
      else
        bindE (parse_rule_statement (make_parsers (incantation (file_state L))) (rules L) st)
          (\<lambda>rules'. Inr (L\<lparr>rules := rules'\<rparr>)))"

subsection \<open>The prefix of an imported file\<close>

definition toupper :: "char \<Rightarrow> char" where
  "toupper c = (if islower c then char_of (of_char c - (32 :: nat)) else c)"

definition tolower :: "char \<Rightarrow> char" where
  "tolower c = (if isupper c then char_of (of_char c + (32 :: nat)) else c)"

definition capitalize :: "string \<Rightarrow> string" where
  "capitalize x = (case x of [] \<Rightarrow> [] | c # cs \<Rightarrow> toupper c # map tolower cs)"

function extend_prefix :: "string list \<Rightarrow> string list \<Rightarrow> nat \<Rightarrow> string \<Rightarrow> error + string" where
  "extend_prefix existing parts i prefix =
     (if prefix \<in> set existing then
        (if i - 1 \<le> 0 then throw ''Import paths equal modulo _ and /.'' (SpanString1 prefix)
         else extend_prefix existing parts (i - 1) (parts ! (i - 1) @ prefix))
      else Inr prefix)"
  by pat_completeness auto
termination
  by (relation "measure (\<lambda>(existing, parts, i, prefix). i)") auto

declare extend_prefix.simps [simp del]

text \<open>
  The prefixes of the files parsed so far. For a file name without any part, which is
  the empty name only, the source reads \<^verbatim>\<open>parts[-1]\<close>, which C++ leaves undefined; the
  model stops with \<open>out_of_range\<close> there.
\<close>

definition existing_prefixes :: "(string \<times> Json) list \<Rightarrow> error + string list" where
  "existing_prefixes parsed =
     bindE (mapE (\<lambda>kv. if HasKey (snd kv) ''predicates_prefix'' then
                          bindE (at_key ''predicates_prefix'' (snd kv)) (\<lambda>p.
                          bindE (as_string p) (\<lambda>x. Inr [x]))
                        else Inr []) parsed) (\<lambda>xs. Inr (concat xs))"

definition prefix_of_file :: "string \<Rightarrow> (string \<times> Json) list \<Rightarrow> error + string" where
  "prefix_of_file this_file_name parsed =
     (if this_file_name = ''main'' then Inr []
      else
        bindE (existing_prefixes parsed) (\<lambda>existing.
        let parts = getlines (CHR ''.'') [] this_file_name in
        if parts = [] then Inl out_of_range
        else extend_prefix existing parts (length parts - 1) (capitalize (last parts) @ ''_'')))"

subsection \<open>Renaming the predicates of a file\<close>

definition rename_rules :: "string \<Rightarrow> string \<Rightarrow> Json list \<Rightarrow> Json list \<times> nat" where
  "rename_rules old_name new_name rules0 =
     (let rs = map (\<lambda>r. RenamePredicate r old_name new_name) rules0
      in (map fst rs, sum_list (map snd rs)))"

definition rename_own :: "string \<Rightarrow> string \<Rightarrow> Json list \<Rightarrow> error + Json list" where
  "rename_own this_file_name prefix rules0 =
     (if this_file_name = ''main'' then Inr rules0
      else
        bindE (DefinedPredicates rules0) (\<lambda>def.
        bindE (MadePredicates rules0) (\<lambda>made.
        Inr (fold (\<lambda>p rs. if p \<noteq> [] \<and> hd p \<noteq> CHR ''@'' \<and> p \<noteq> ''++?''
                           then fst (rename_rules p (prefix @ p) rs) else rs)
               (string_set (def @ made)) rules0))))"

definition rename_imported ::
  "(string \<times> Json) list \<Rightarrow> (string \<times> string list) list \<Rightarrow> Json list \<Rightarrow> Json \<Rightarrow>
   error + Json list" where
  "rename_imported parsed created rules0 ipj =
     bindE (at_key ''file'' ipj) (\<lambda>f.
     bindE (as_string f) (\<lambda>file.
     bindE (at_key ''predicate_name'' ipj) (\<lambda>pn.
     bindE (as_string pn) (\<lambda>imported_pred_name.
     bindE (at_key ''synonym'' ipj) (\<lambda>syn.
     bindE (if is_null syn then Inr imported_pred_name else as_string syn) (\<lambda>imported_as.
     bindE (case map_of parsed file of None \<Rightarrow> Inl out_of_range | Some v \<Rightarrow> Inr v) (\<lambda>v.
     bindE (at_key ''predicates_prefix'' v) (\<lambda>pp.
     bindE (as_string pp) (\<lambda>import_prefix.
     if import_prefix = [] then throw ''Empty import prefix'' (SpanString1 file)
     else
       let renamed = rename_rules imported_as (import_prefix @ imported_pred_name) rules0;
           made = (case map_of created file of Some names \<Rightarrow> names | None \<Rightarrow> [])
       in
       if import_prefix @ imported_pred_name \<notin> set made \<and> imported_pred_name \<notin> set made then
         throw ''Predicate imported but not defined.''
           (SpanString1 (file @ '' -> '' @ imported_pred_name))
       else if snd renamed = 0 then
         throw ''Predicate imported but not used.'' (SpanString1 (file @ '' -> '' @ imported_as))
       else Inr (fst renamed))))))))))"

text \<open>The file \<^verbatim>\<open>main\<close> gathers the rules of every file parsed, in the order of their names.\<close>

definition assemble_import ::
  "string list \<times> Json list \<Rightarrow> string \<times> Json \<Rightarrow> error + string list \<times> Json list" where
  "assemble_import acc kv =
     bindE (at_key ''rule'' (snd kv)) (\<lambda>r.
     bindE (as_array r) (\<lambda>irules.
     bindE (DefinedPredicates irules) (\<lambda>new_preds.
     case filter (\<lambda>p. p \<in> set (fst acc) \<and> p \<noteq> [] \<and> hd p \<noteq> CHR ''@'') new_preds of
       p # ps \<Rightarrow> throw ''Predicate from file is overridden by importer.'' (SpanString1 p)
     | [] \<Rightarrow> Inr (string_set (fst acc @ new_preds), snd acc @ irules))))"

definition assemble :: "string \<Rightarrow> (string \<times> Json) list \<Rightarrow> Json list \<Rightarrow> error + Json list" where
  "assemble this_file_name parsed rules0 =
     (if this_file_name = ''main'' then
        bindE (DefinedPredicates rules0) (\<lambda>defined.
        bindE (foldE assemble_import (defined, rules0) parsed) (\<lambda>acc. Inr (snd acc)))
      else Inr rules0)"

subsection \<open>A file\<close>

definition ParseFileInternal_body ::
  "(bool \<Rightarrow> Parsers) \<Rightarrow> (string \<Rightarrow> string option) \<Rightarrow> FileParser \<Rightarrow> FileParser" where
  "ParseFileInternal_body make_parsers files parse_file
     content this_file_name st0 import_chain0 import_root =
     (let st = (if (if this_file_name = [] then ''main'' else this_file_name) = ''main''
                then st0\<lparr>incantation := EnactIncantations content (incantation st0)\<rparr> else st0);
          import_chain = import_chain0 @ [this_file_name]
      in
      bindE (RemoveComments (SpanString1 content)) (\<lambda>code.
      bindE (Split (SpanString1 code) '';'') (\<lambda>statements.
      bindE (foldE (parse_statement make_parsers
                      (\<lambda>file fs. ParseImport files parse_file file fs import_chain import_root))
               \<lparr>rules = [], imported_predicates = [], predicates_created_by_import = [],
                file_state = st\<rparr> statements) (\<lambda>L.
      bindE (DnfRewrite (JArray (rules L))) (\<lambda>dnf.
      bindE (MultiBodyAggregationRewrite dnf) (\<lambda>multi.
      bindE (RewriteAggregationsAsExpressions multi) (\<lambda>rewritten_rules.
      bindE (as_array rewritten_rules) (\<lambda>rules1.
      bindE (prefix_of_file this_file_name (parsed_imports (file_state L))) (\<lambda>prefix.
      bindE (rename_own this_file_name prefix rules1) (\<lambda>rules2.
      bindE (foldE (rename_imported (parsed_imports (file_state L))
                      (predicates_created_by_import L)) rules2 (imported_predicates L)) (\<lambda>rules3.
      bindE (assemble this_file_name (parsed_imports (file_state L)) rules3) (\<lambda>rules4.
      Inr (JObject [(''file_name'', JString this_file_name),
                    (''imported_predicates'', JArray (imported_predicates L)),
                    (''predicates_prefix'', JString prefix),
                    (''rule'', JArray rules4)],
           file_state L)))))))))))))"

text \<open>
  \<^verbatim>\<open>ParseFileInternal\<close> calls itself through \<^verbatim>\<open>ParseImport\<close>; as for the parsers, the
  number of nested calls is bounded by \<open>depth\<close>.
\<close>

fun ParseFileInternal ::
  "(bool \<Rightarrow> Parsers) \<Rightarrow> (string \<Rightarrow> string option) \<Rightarrow> nat \<Rightarrow> FileParser" where
  "ParseFileInternal make_parsers files 0 =
     (\<lambda>content this_file_name st import_chain import_root. Inl stack_overflow)"
| "ParseFileInternal make_parsers files (Suc depth) =
     ParseFileInternal_body make_parsers files (ParseFileInternal make_parsers files depth)"

text \<open>
  \<^verbatim>\<open>ParseFile\<close>, with the value of the global \<^verbatim>\<open>TOO_MUCH\<close> when it is called, which is
  \<open>False\<close> in a process that has parsed no incantation yet.
\<close>

definition ParseFile ::
  "(bool \<Rightarrow> Parsers) \<Rightarrow> (string \<Rightarrow> string option) \<Rightarrow> nat \<Rightarrow> bool \<Rightarrow>
   string \<Rightarrow> string \<Rightarrow> string list \<Rightarrow> error + Json" where
  "ParseFile make_parsers files depth too_much content file_name import_root =
     bindE (ParseFileInternal make_parsers files depth content file_name
              \<lparr>incantation = too_much, parsed_imports = [], in_progress = {}\<rparr> [] import_root)
       (\<lambda>r. Inr (fst r))"

section \<open>Numbers\<close>

text \<open>
  The examples of this development need the C library at a few texts. \<open>strtod_digits\<close>
  stands for \<^verbatim>\<open>strtod\<close> there: it converts the decimal digits a text starts with and never
  sets \<^verbatim>\<open>errno\<close>, as the library does on a text that starts with none of white space, a
  sign, a dot and the letters of \<^verbatim>\<open>inf\<close> and \<^verbatim>\<open>nan\<close>, and whose leading digits are followed
  by none of a dot, an exponent and \<^verbatim>\<open>x\<close>.
\<close>

definition strtod_digits :: "string \<Rightarrow> nat \<times> bool" where
  "strtod_digits text = (length (takeWhile isdigit text), False)"

text \<open>The sign of infinity in UTF-8, the bytes \<^verbatim>\<open>E2 88 9E\<close>.\<close>

definition infinity_utf8 :: string where
  "infinity_utf8 = [CHR 0xE2, CHR 0x88, CHR 0x9E]"

lemma str_SpanString1 [simp]: "str (SpanString1 x) = x"
  by (simp add: str_def view_SpanString1)

text \<open>
  Claim C4. The literal that \<^verbatim>\<open>ParseNumber\<close> takes for the number \<^verbatim>\<open>-1\<close> is the text of six
  bytes that stands in the source file, which is the sign of infinity encoded twice. The
  sign itself, three bytes, is not that literal: it is handed to \<^verbatim>\<open>strtod\<close>, and when
  \<^verbatim>\<open>strtod\<close> converts nothing of it, as the C library does, the parser reports that the
  text is not a number.
\<close>

theorem ParseNumber_infinity:
  "ParseNumber sd (SpanString1 infinity_literal) = Some (number_node ''-1'') \<and>
   (fst (sd infinity_utf8) = 0 \<longrightarrow> ParseNumber sd (SpanString1 infinity_utf8) = None)"
proof -
  have e1: "\<not> ends_with (SpanString1 infinity_literal) ''u''"
    by (simp add: ends_with_def view_SpanString1 infinity_literal_def)
  have e2: "\<not> ends_with (SpanString1 infinity_utf8) ''u''"
    by (simp add: ends_with_def view_SpanString1 infinity_utf8_def)
  have ne: "infinity_utf8 \<noteq> infinity_literal"
    by (simp add: infinity_utf8_def infinity_literal_def)
  have c: "c_str infinity_utf8 = infinity_utf8"
    by (simp add: c_str_def infinity_utf8_def)
  show ?thesis
    using e1 e2 ne c by (auto simp: ParseNumber_def Let_def split: prod.splits)
qed

theorem ParseNumber_infinity_witness:
  "fst (strtod_digits infinity_utf8) = 0 \<and>
   ParseNumber strtod_digits (SpanString1 infinity_utf8) = None \<and>
   ParseNumber strtod_digits (SpanString1 infinity_literal) = Some (number_node ''-1'')"
proof -
  have "fst (strtod_digits infinity_utf8) = 0"
    by (simp add: strtod_digits_def infinity_utf8_def isdigit_def)
  with ParseNumber_infinity [of strtod_digits] show ?thesis by simp
qed

section \<open>Circular imports\<close>

text \<open>
  An import that is in progress and not yet parsed is refused: the message is the import
  chain, each file followed by an arrow, and then the file asked for.
\<close>

lemma ParseImport_in_progress:
  assumes "map_of (parsed_imports st) file_import_str = None"
    and "file_import_str \<in> in_progress st"
  shows "ParseImport files parse_file file_import_str st import_chain import_root =
           Inl (ParsingException
                  (''Circular imports are not allowed: '' @
                   concat (map (\<lambda>c. c @ ''->'') import_chain) @ file_import_str)
                  (SpanString1 file_import_str))"
  using assms by (simp add: ParseImport_def throw_def)

text \<open>The file that the first statement of a text imports from.\<close>

definition first_import :: "string \<Rightarrow> string option" where
  "first_import content =
     (case RemoveComments (SpanString1 content) of
        Inl e \<Rightarrow> None
      | Inr code \<Rightarrow>
          (case Split (SpanString1 code) '';'' of
             Inr (st # statements) \<Rightarrow>
               if \<not> span_empty st \<and> starts_with st ''import '' then
                 (case SplitImport (str (slice_from st (length ''import ''))) of
                    Inr imported \<Rightarrow> Some (fst imported)
                  | Inl e \<Rightarrow> None)
               else None
           | _ \<Rightarrow> None))"

text \<open>The content of an imported file, as \<^verbatim>\<open>ParseImport\<close> finds it.\<close>

definition imported_content ::
  "(string \<Rightarrow> string option) \<Rightarrow> string list \<Rightarrow> string \<Rightarrow> string option" where
  "imported_content files import_root file_import_str =
     first_existing files (if import_root = [] then [[]] else import_root)
       (join ''/'' (getlines (CHR ''.'') [] file_import_str) @ ''.l'')"

lemma ParseFileInternal_first_import:
  assumes "first_import content = Some file"
    and "\<And>st'. parsed_imports st' = parsed_imports st \<Longrightarrow> in_progress st' = in_progress st \<Longrightarrow>
           ParseImport files parse_file file st' (import_chain @ [this_file_name]) import_root = Inl e"
  shows "ParseFileInternal_body make_parsers files parse_file content this_file_name st
           import_chain import_root = Inl e"
proof -
  from assms(1) obtain code st1 statements imported where
    c: "RemoveComments (SpanString1 content) = Inr code"
      "Split (SpanString1 code) '';'' = Inr (st1 # statements)"
      "\<not> span_empty st1" "starts_with st1 ''import ''"
      "SplitImport (str (slice_from st1 (length ''import ''))) = Inr imported" "fst imported = file"
    by (auto simp: first_import_def split: sum.splits list.splits if_splits)
  obtain p y where i: "imported = (file, p, y)" using c(6) by (cases imported) auto
  let ?st = "if (if this_file_name = [] then ''main'' else this_file_name) = ''main''
             then st\<lparr>incantation := EnactIncantations content (incantation st)\<rparr> else st"
  have "ParseImport files parse_file file ?st (import_chain @ [this_file_name]) import_root = Inl e"
    by (rule assms(2)) simp_all
  then show ?thesis
    using c i
    by (simp add: ParseFileInternal_body_def Let_def parse_statement_def parse_import_statement_def)
qed

text \<open>
  Claim C8. When a file \<open>a\<close> is imported whose first statement imports from \<open>b\<close>, and the
  first statement of \<open>b\<close> imports from \<open>a\<close>, neither being parsed nor in progress yet, the
  import fails: the second import of \<open>a\<close> finds it in progress, and \<^verbatim>\<open>ParseImport\<close>
  throws. The message is the chain of the files being parsed, each followed by an arrow,
  which ends with \<open>a\<close> and \<open>b\<close>, and then the file asked for, \<open>a\<close>. Two nested calls of
  \<^verbatim>\<open>ParseFileInternal\<close> are needed for it.
\<close>

theorem ParseImport_circular:
  assumes "imported_content files import_root a = Some content_a"
    and "first_import content_a = Some b"
    and "imported_content files import_root b = Some content_b"
    and "first_import content_b = Some a"
    and "a \<noteq> b"
    and "map_of (parsed_imports st) a = None" "map_of (parsed_imports st) b = None"
    and "a \<notin> in_progress st" "b \<notin> in_progress st"
  shows "ParseImport files (ParseFileInternal make_parsers files (Suc (Suc depth))) a st
           import_chain import_root =
         Inl (ParsingException
                (''Circular imports are not allowed: '' @
                 concat (map (\<lambda>c. c @ ''->'') import_chain) @ a @ ''->'' @ b @ ''->'' @ a)
                (SpanString1 a))"
proof -
  let ?e = "ParsingException
                (''Circular imports are not allowed: '' @
                 concat (map (\<lambda>c. c @ ''->'') import_chain) @ a @ ''->'' @ b @ ''->'' @ a)
                (SpanString1 a)"
  let ?st1 = "st\<lparr>in_progress := insert a (in_progress st)\<rparr>"
  have inner: "ParseImport files (ParseFileInternal make_parsers files depth) a st2
                 ((import_chain @ [a]) @ [b]) import_root = Inl ?e"
    if "parsed_imports st2 = parsed_imports st" "a \<in> in_progress st2" for st2
    using ParseImport_in_progress [of st2 a files _ "(import_chain @ [a]) @ [b]" import_root]
      that assms(6)
    by simp
  have b: "ParseImport files (ParseFileInternal make_parsers files (Suc depth)) b st1
             (import_chain @ [a]) import_root = Inl ?e"
    if st1: "parsed_imports st1 = parsed_imports st" "in_progress st1 = insert a (in_progress st)"
    for st1
  proof -
    let ?st2 = "st1\<lparr>in_progress := insert b (in_progress st1)\<rparr>"
    have "ParseFileInternal_body make_parsers files (ParseFileInternal make_parsers files depth)
            content_b b ?st2 (import_chain @ [a]) import_root = Inl ?e"
      by (rule ParseFileInternal_first_import [OF assms(4)], rule inner) (simp_all add: st1)
    then show ?thesis
      using assms(3,5,7,9) st1
      by (simp add: ParseImport_def imported_content_def Let_def)
  qed
  have "ParseFileInternal_body make_parsers files (ParseFileInternal make_parsers files (Suc depth))
          content_a a ?st1 import_chain import_root = Inl ?e"
    by (rule ParseFileInternal_first_import [OF assms(2)], rule b) simp_all
  then show ?thesis
    using assms(1,6,8)
    by (simp add: ParseImport_def imported_content_def Let_def)
qed

text \<open>
  The files \<^verbatim>\<open>a.l\<close> and \<^verbatim>\<open>b.l\<close> import each other, and the main file imports the first.
\<close>

definition files_a_b :: "string \<Rightarrow> string option" where
  "files_a_b path =
     (if path = ''a.l'' then Some ''import b.B; A(x) :- B(x)''
      else if path = ''b.l'' then Some ''import a.A; B(x) :- A(x)''
      else None)"

theorem ParseImport_circular_witness:
  "imported_content files_a_b [] ''a'' = Some ''import b.B; A(x) :- B(x)'' \<and>
   first_import ''import b.B; A(x) :- B(x)'' = Some ''b'' \<and>
   imported_content files_a_b [] ''b'' = Some ''import a.A; B(x) :- A(x)'' \<and>
   first_import ''import a.A; B(x) :- A(x)'' = Some ''a'' \<and>
   ParseImport files_a_b
     (ParseFileInternal (\<lambda>too_much. parsers too_much strtod_digits 0) files_a_b (Suc (Suc 0))) ''a''
     \<lparr>incantation = False, parsed_imports = [], in_progress = {}\<rparr> [''main''] [] =
   Inl (ParsingException ''Circular imports are not allowed: main->a->b->a'' (SpanString1 ''a''))"
proof -
  have 1: "imported_content files_a_b [] ''a'' = Some ''import b.B; A(x) :- B(x)''"
    by code_simp
  have 2: "first_import ''import b.B; A(x) :- B(x)'' = Some ''b''"
    by code_simp
  have 3: "imported_content files_a_b [] ''b'' = Some ''import a.A; B(x) :- A(x)''"
    by code_simp
  have 4: "first_import ''import a.A; B(x) :- A(x)'' = Some ''a''"
    by code_simp
  from ParseImport_circular [OF 1 2 3 4,
      of "\<lparr>incantation = False, parsed_imports = [], in_progress = {}\<rparr>"
         "\<lambda>too_much. parsers too_much strtod_digits 0" 0 "[''main'']"]
  show ?thesis using 1 2 3 4 by simp
qed

text \<open>The whole parse of the main file ends with that error.\<close>

lemma ParseFile_circular:
  "ParseFile (\<lambda>too_much. parsers too_much strtod_digits 3) files_a_b 3 False
     ''import a.A; Q(x) :- A(x)'' ''main'' [] =
   Inl (ParsingException ''Circular imports are not allowed: main->a->b->a'' (SpanString1 ''a''))"
  by code_simp

section \<open>Negation\<close>

text \<open>
  The span left of the last separator, as \<^verbatim>\<open>ParseInfix\<close> builds it from the raw split.
\<close>

definition infix_left :: "SpanString \<Rightarrow> SpanString list \<Rightarrow> SpanString" where
  "infix_left s parts = SpanString3 (heritage s) (start s) (stop (parts ! (length parts - 2)))"

text \<open>
  The general infix production does not decline a span with a \<^verbatim>\<open>~\<close> that has a left part:
  an operator tried before \<^verbatim>\<open>~\<close> takes the span, or \<^verbatim>\<open>~\<close> does, as a binary operator.
\<close>

lemma ParseInfix_loop_tilde:
  assumes "SplitRaw s ''~'' = Inr raw" "length raw > 1"
    and "\<not> span_empty (Strip (SpanString3 (heritage s) (start s) (stop (raw ! (length raw - 2)))))"
    and "\<not> (view (SpanString3 (heritage s) (start s) (stop (raw ! (length raw - 2)))) \<noteq> [] \<and>
           last (view (SpanString3 (heritage s) (start s) (stop (raw ! (length raw - 2))))) = CHR ''!'')"
    and "''~'' \<in> set ops"
  shows "ParseInfix_loop P s [] ops \<noteq> Inr None"
  using assms(5)
proof (induction ops)
  case Nil
  then show ?case by simp
next
  case (Cons op ops)
  show ?case
  proof (cases "op = ''~''")
    case True
    with assms(1-4) show ?thesis
      by (auto simp: Let_def bindE_Inr_iff)
  next
    case False
    with Cons have IH: "ParseInfix_loop P s [] ops \<noteq> Inr None" by simp
    show ?thesis
    proof (cases "SplitRaw s op")
      case (Inl e)
      then show ?thesis by simp
    next
      case (Inr parts)
      with False IH show ?thesis
        by (auto simp: Let_def bindE_Inr_iff)
    qed
  qed
qed

lemma tilde_infix_operator: "''~'' \<in> set (infix_operators too_much)"
  by (simp add: infix_operators_def)

lemma ParseInfix_tilde:
  assumes "SplitRaw s ''~'' = Inr raw" "length raw > 1"
    and "\<not> span_empty (Strip (SpanString3 (heritage s) (start s) (stop (raw ! (length raw - 2)))))"
    and "\<not> (view (SpanString3 (heritage s) (start s) (stop (raw ! (length raw - 2)))) \<noteq> [] \<and>
           last (view (SpanString3 (heritage s) (start s) (stop (raw ! (length raw - 2))))) = CHR ''!'')"
  shows "ParseInfix P s None [] \<noteq> Inr None"
  using ParseInfix_loop_tilde [OF assms tilde_infix_operator] by (simp add: ParseInfix_def)


lemma Split_negation_example:
  "Split (SpanString1 ''~P(x)'') ''~'' =
     Inr [\<lparr>heritage = ''~P(x)'', start = 0, stop = 0\<rparr>,
          \<lparr>heritage = ''~P(x)'', start = 1, stop = 5\<rparr>]"
  by code_simp

definition call_P_x :: Json where
  "call_P_x =
     JObject [(''predicate'', call_node ''P'' (record_node
       [field_value (JInt 0) (expression_value
          (JObject [(''expression_heritage'', JString ''x''),
                    (''variable'', JObject [(''var_name'', JString ''x'')])]))]))]"

lemma ParseNegation_example:
  "bindE (Split (Strip \<lparr>heritage = ''~P(x)'', start = 1, stop = 5\<rparr>) '','') (\<lambda>conj_parts.
   mapE (ParseProposition (parsers False strtod_digits 2)) conj_parts) = Inr [call_P_x]"
  by code_simp

lemma SplitRaw_negation_example:
  "SplitRaw (SpanString1 ''~P(x)'') ''~'' =
     Inr [\<lparr>heritage = ''~P(x)'', start = 0, stop = 0\<rparr>,
          \<lparr>heritage = ''~P(x)'', start = 1, stop = 5\<rparr>]"
  by code_simp

lemma Split_tilde_example:
  "Split (SpanString1 ''a ~ b'') ''~'' =
     Inr [\<lparr>heritage = ''a ~ b'', start = 0, stop = 1\<rparr>,
          \<lparr>heritage = ''a ~ b'', start = 4, stop = 5\<rparr>]"
  by code_simp

lemma SplitRaw_tilde_example:
  "SplitRaw (SpanString1 ''a ~ b'') ''~'' =
     Inr [\<lparr>heritage = ''a ~ b'', start = 0, stop = 2\<rparr>,
          \<lparr>heritage = ''a ~ b'', start = 3, stop = 5\<rparr>]"
  by code_simp

lemma infix_left_example:
  "infix_left (SpanString1 ''a ~ b'')
     [\<lparr>heritage = ''a ~ b'', start = 0, stop = 2\<rparr>,
      \<lparr>heritage = ''a ~ b'', start = 3, stop = 5\<rparr>] =
   \<lparr>heritage = ''a ~ b'', start = 0, stop = 2\<rparr> \<and>
   Strip \<lparr>heritage = ''a ~ b'', start = 0, stop = 2\<rparr> =
   \<lparr>heritage = ''a ~ b'', start = 0, stop = 1\<rparr>"
  by code_simp


text \<open>The proposition \<^verbatim>\<open>~P(x)\<close> is that tree.\<close>

lemma ParseProposition_negation:
  "ParseProposition (parsers False strtod_digits 3) (SpanString1 ''~P(x)'') =
     Inr (NegationTree (SpanString1 ''~P(x)'') (conjunction_node [call_P_x]))"
  by code_simp

text \<open>
  Claim C5 as stated fails for a \<^verbatim>\<open>~\<close> with a left part. In a proposition the infix
  operators are tried before the negation, \<^verbatim>\<open>~\<close> among them: the proposition \<^verbatim>\<open>a ~ b\<close> is
  the call of the predicate \<^verbatim>\<open>~\<close>, and no error.
\<close>

definition variable_node_at :: "string \<Rightarrow> Json" where
  "variable_node_at x =
     JObject [(''expression_heritage'', JString x),
              (''variable'', JObject [(''var_name'', JString x)])]"


text \<open>As an expression, where \<^verbatim>\<open>~\<close> is no infix operator, the same text is the error.\<close>

lemma ParseExpression_binary_tilde:
  "ParseExpression (parsers False strtod_digits 3) (SpanString1 ''a ~ b'') =
     Inl (ParsingException ''Negation \"~\" is a unary operator.'' (SpanString1 ''a ~ b''))"
  by code_simp

section \<open>Aggregation in the head of a rule\<close>

text \<open>A field value whose value is an aggregation.\<close>

definition aggregated :: "Json \<Rightarrow> bool" where
  "aggregated fv =
     (case fv of
        JObject fvo \<Rightarrow>
          (case obj_find ''value'' fvo of
             Some (JObject vo) \<Rightarrow> obj_count ''aggregation'' vo
           | _ \<Rightarrow> False)
      | _ \<Rightarrow> False)"

lemma Split_span_ok: "Split s separator = Inr parts \<Longrightarrow> \<forall>p\<in>set parts. span_ok p"
  using Strip_result by (auto simp: Split_def bindE_Inr_iff trimmed_def)

lemma Split_nonempty:
  assumes "span_ok s" "Split s separator = Inr parts"
  shows "parts \<noteq> []"
proof -
  from assms(2) obtain raw where raw: "SplitRaw s separator = Inr raw" "parts = map Strip raw"
    by (auto simp: Split_def bindE_Inr_iff)
  show ?thesis
  proof (cases "separator = []")
    case True
    with raw show ?thesis by (auto simp: SplitRaw_def)
  next
    case False
    with raw(1) have "SplitRaw_loop s separator (0, []) 0 [] = Inr raw"
      by (simp add: SplitRaw_def)
    from SplitRaw_loop_partition [OF assms(1) False _ _ this] raw(2)
    show ?thesis by auto
  qed
qed

lemma nonempty_str: "span_ok s \<Longrightarrow> \<not> span_empty s \<Longrightarrow> str s \<noteq> []"
  using length_view [of s] by (auto simp: str_def span_empty_def)

lemma foldE_Inr_induct:
  assumes "foldE f st xs = Inr st'" "Q st"
    and "\<And>a x b. Q a \<Longrightarrow> f a x = Inr b \<Longrightarrow> Q b"
  shows "Q st'"
  using assms(1,2)
proof (induction xs arbitrary: st)
  case Nil
  then show ?case by simp
next
  case (Cons x xs)
  from Cons.prems(1) obtain b where b: "f st x = Inr b" "foldE f b xs = Inr st'"
    by (auto simp: bindE_Inr_iff)
  from Cons.IH [OF b(2) assms(3) [OF Cons.prems(2) b(1)]] show ?case .
qed

lemma ParseRecordInternals_shape:
  "ParseRecordInternals P s a b = Inr r \<Longrightarrow> \<exists>fvs. r = record_node fvs"
  by (auto simp: ParseRecordInternals_def Let_def bindE_Inr_iff throw_def split: if_splits)

lemma ParseCall_shape:
  assumes "ParseCall P s b = Inr (Some c)"
  shows "\<exists>name fvs. c = call_node name (record_node fvs)"
proof (cases "ParseGenericCall (TOO_MUCH P) s (CHR ''('') (CHR '')'')")
  case (Inl e)
  with assms show ?thesis by (simp add: ParseCall_def)
next
  case (Inr g)
  show ?thesis
  proof (cases g)
    case None
    with assms Inr show ?thesis by (simp add: ParseCall_def)
  next
    case (Some generic)
    with assms Inr obtain args where
      "ParseRecordInternals P (snd generic) False b = Inr args" "c = call_node (fst generic) args"
      by (auto simp: ParseCall_def bindE_Inr_iff)
    with ParseRecordInternals_shape show ?thesis by blast
  qed
qed

lemma call_field_values_call_node [simp]:
  "call_field_values (call_node name (record_node fvs)) = Inr fvs"
  by (simp add: call_field_values_def call_node_def record_node_def obj_at_def obj_find_def)

lemma push_field_value_call_node [simp]:
  "push_field_value (call_node name (record_node fvs)) fv =
     Inr (call_node name (record_node (fvs @ [fv])))"
  by (simp add: push_field_value_def call_node_def record_node_def obj_at_def obj_find_def)

lemma check_fields:
  "mapE (\<lambda>fv. bindE (as_object fv) (\<lambda>fvo.
              bindE (obj_at ''value'' fvo) (\<lambda>v.
              bindE (as_object v) (\<lambda>vo.
              if obj_count ''aggregation'' vo then throw m cs else Inr ())))) fvs = Inr u \<Longrightarrow>
   \<not> list_ex aggregated fvs"
proof (induction fvs arbitrary: u)
  case Nil
  then show ?case by simp
next
  case (Cons fv fvs)
  from Cons.prems obtain fvo v vo us where
    "as_object fv = Inr fvo" "obj_at ''value'' fvo = Inr v" "as_object v = Inr vo"
    "\<not> obj_count ''aggregation'' vo"
    and r: "mapE (\<lambda>fv. bindE (as_object fv) (\<lambda>fvo.
              bindE (obj_at ''value'' fvo) (\<lambda>v.
              bindE (as_object v) (\<lambda>vo.
              if obj_count ''aggregation'' vo then throw m cs else Inr ())))) fvs = Inr us"
    by (auto simp: bindE_Inr_iff throw_def split: if_splits)
  then have "\<not> aggregated fv"
    by (cases fv; cases v) (auto simp: aggregated_def obj_at_def split: option.splits)
  with Cons.IH [OF r] show ?case by simp
qed

lemma check_agg_ok:
  assumes "check_agg d call_str (call_node name (record_node fvs)) = Inr u"
  shows "d \<or> \<not> list_ex aggregated fvs"
proof (cases d)
  case True
  then show ?thesis by simp
next
  case False
  with assms obtain us where
    "mapE (\<lambda>fv. bindE (as_object fv) (\<lambda>fvo.
              bindE (obj_at ''value'' fvo) (\<lambda>v.
              bindE (as_object v) (\<lambda>vo.
              if obj_count ''aggregation'' vo then
                throw ''Aggregation appears in a non-distinct predicate. Did you forget distinct?'' call_str
              else Inr ())))) fvs = Inr us"
    by (auto simp: check_agg_def bindE_Inr_iff)
  from check_fields [OF this] show ?thesis by simp
qed

text \<open>
  What \<^verbatim>\<open>ParseHeadCall\<close> returns: a call that has an aggregated field value only if the
  head is distinct from outside or by its own aggregating value; and with the flag set,
  a call whose last field value is the aggregation of \<^verbatim>\<open>logica_value\<close>, the operator not
  empty.
\<close>

lemma ParseHeadCall_shape:
  assumes "ParseHeadCall P s d = Inr (call, is_distinct)"
  shows "\<exists>name fvs. call = call_node name (record_node fvs) \<and>
           (list_ex aggregated fvs \<longrightarrow> d \<or> is_distinct) \<and>
           (is_distinct \<longrightarrow>
              (\<exists>fvs0 op_str argument heritage_str.
                 fvs = fvs0 @ [field_value (JString ''logica_value'')
                                 (aggregation_node op_str argument heritage_str)] \<and>
                 op_str \<noteq> []))"
proof -
  from assms obtain found where f: "head_call_end s False (0, []) = Inr found" "fst found"
    by (auto simp: ParseHeadCall_def bindE_Inr_iff throw_def split: if_splits)
  let ?call_str = "slice s 0 (Suc (snd found))"
  let ?post = "slice_from s (Suc (snd found))"
  from assms f obtain c0 where c0: "ParseCall P ?call_str True = Inr (Some c0)"
    by (cases "ParseCall P ?call_str True")
       (auto simp: ParseHeadCall_def Let_def throw_def attempt_def split: option.splits)
  from ParseCall_shape [OF c0] obtain name fvs0 where
    shape: "c0 = call_node name (record_node fvs0)" by blast
  from assms f c0 obtain op_expr where oe: "Split ?post ''='' = Inr op_expr"
    and rest: "(if length op_expr = 1 then
              (if \<not> span_empty (op_expr ! 0) then
                 throw ''Unexpected text in the head of a rule.'' (op_expr ! 0)
               else bindE (check_agg d ?call_str c0) (\<lambda>u. Inr (c0, False)))
            else if length op_expr > 2 then
              throw ''Too many '=' in predicate value.'' ?post
            else
              let op_str = op_expr ! 0; expr_str = op_expr ! 1 in
              if span_empty op_str then
                bindE (call_field_values c0) (\<lambda>fvs.
                bindE (ParseExpression P expr_str) (\<lambda>e.
                bindE (push_field_value c0
                         (field_value (JString ''logica_value'') (expression_value e))) (\<lambda>call'.
                bindE (check_agg d ?call_str call') (\<lambda>u. Inr (call', False)))))
              else
                bindE (ParseExpression P expr_str) (\<lambda>argument.
                bindE (push_field_value c0
                         (field_value (JString ''logica_value'')
                            (aggregation_node (str op_str) argument (str ?post)))) (\<lambda>call'.
                Inr (call', True)))) = Inr (call, is_distinct)"
    by (auto simp: ParseHeadCall_def Let_def bindE_Inr_iff)
  consider (single) "length op_expr = 1" | (several) "length op_expr > 2"
    | (plain) "length op_expr \<noteq> 1" "\<not> length op_expr > 2" "span_empty (op_expr ! 0)"
    | (agg) "length op_expr \<noteq> 1" "\<not> length op_expr > 2" "\<not> span_empty (op_expr ! 0)"
    by blast
  then show ?thesis
  proof cases
    case single
    from rest have "(if \<not> span_empty (op_expr ! 0) then
                 throw ''Unexpected text in the head of a rule.'' (op_expr ! 0)
               else bindE (check_agg d ?call_str c0) (\<lambda>u. Inr (c0, False))) = Inr (call, is_distinct)"
      unfolding if_P [OF single] .
    then have "bindE (check_agg d ?call_str c0) (\<lambda>u. Inr (c0, False)) = Inr (call, is_distinct)"
      by (cases "span_empty (op_expr ! 0)") (simp_all add: throw_def)
    then obtain u where "check_agg d ?call_str c0 = Inr u" "call = c0" "\<not> is_distinct"
      by (cases "check_agg d ?call_str c0") simp_all
    with check_agg_ok [of d ?call_str name fvs0 u] shape show ?thesis by auto
  next
    case several
    then have "length op_expr \<noteq> 1" by simp
    from rest have "throw ''Too many '=' in predicate value.'' ?post = Inr (call, is_distinct)"
      unfolding if_not_P [OF \<open>length op_expr \<noteq> 1\<close>] if_P [OF several] .
    then show ?thesis by (simp add: throw_def)
  next
    case plain
    from rest have "bindE (call_field_values c0) (\<lambda>fvs.
                bindE (ParseExpression P (op_expr ! 1)) (\<lambda>e.
                bindE (push_field_value c0
                         (field_value (JString ''logica_value'') (expression_value e))) (\<lambda>call'.
                bindE (check_agg d ?call_str call') (\<lambda>u. Inr (call', False))))) = Inr (call, is_distinct)"
      unfolding if_not_P [OF plain(1)] if_not_P [OF plain(2)] Let_def if_P [OF plain(3)] .
    with shape obtain e u where
      "check_agg d ?call_str (call_node name (record_node
          (fvs0 @ [field_value (JString ''logica_value'') (expression_value e)]))) = Inr u"
      "call = call_node name (record_node
          (fvs0 @ [field_value (JString ''logica_value'') (expression_value e)]))"
      "\<not> is_distinct"
      by (auto simp: bindE_Inr_iff)
    with check_agg_ok [of d ?call_str name _ u] show ?thesis by auto
  next
    case agg
    have "span_ok ?post" by (simp add: slice_from_def)
    from Split_nonempty [OF this oe] have "op_expr ! 0 \<in> set op_expr" by (cases op_expr) auto
    with Split_span_ok [OF oe] agg(3) have ne: "str (op_expr ! 0) \<noteq> []"
      by (auto simp: nonempty_str)
    from rest have "bindE (ParseExpression P (op_expr ! 1)) (\<lambda>argument.
                bindE (push_field_value c0
                         (field_value (JString ''logica_value'')
                            (aggregation_node (str (op_expr ! 0)) argument (str ?post)))) (\<lambda>call'.
                Inr (call', True))) = Inr (call, is_distinct)"
      unfolding if_not_P [OF agg(1)] if_not_P [OF agg(2)] Let_def if_not_P [OF agg(3)] .
    with shape obtain argument where
      "call = call_node name (record_node
          (fvs0 @ [field_value (JString ''logica_value'')
                     (aggregation_node (str (op_expr ! 0)) argument (str ?post))]))"
      "is_distinct"
      by (auto simp: bindE_Inr_iff)
    with ne show ?thesis by blast
  qed
qed




text \<open>The head \<^verbatim>\<open>Q(x? Max= y) distinct\<close>, and the same head without \<^verbatim>\<open>distinct\<close>.\<close>

definition body_P_y :: Json where
  "body_P_y =
     JObject [(''predicate'', call_node ''P'' (record_node
       [field_value (JInt 0) (expression_value (variable_node_at ''y''))]))]"

lemma ParseRule_aggregated_field:
  "ParseRule (parsers False strtod_digits 2) (SpanString1 ''Q(x? Max= y) distinct :- P(y)'') =
     Inr (JObject
       [(''body'', body_P_y),
        (''distinct_denoted'', JBool True),
        (''full_text'', JString ''Q(x? Max= y) distinct :- P(y)''),
        (''head'', call_node ''Q'' (record_node
           [field_value (JString ''x'')
              (aggregation_node ''Max'' (variable_node_at ''y'') ''Max= y'')]))])"
  by code_simp

lemma ParseRule_aggregated_field_not_distinct:
  "ParseRule (parsers False strtod_digits 2) (SpanString1 ''Q(x? Max= y) :- P(y)'') =
     Inl (ParsingException
       ''Aggregation appears in a non-distinct predicate. Did you forget distinct?''
       \<lparr>heritage = ''Q(x? Max= y) :- P(y)'', start = 0, stop = 12\<rparr>)"
  by code_simp



section \<open>The heritage of an expression\<close>

subsection \<open>The empty span is no expression\<close>

lemma Next_empty: "Next [] t = None"
  by (cases t) (simp add: Next.simps)

lemma SplitRaw_empty:
  assumes "view s = []"
  shows "\<exists>p. SplitRaw s separator = Inr [p]"
proof (cases "separator = []")
  case True
  then show ?thesis by (simp add: SplitRaw_def)
next
  case False
  have "SplitRaw_loop s separator (0, []) 0 [] = Inr [slice s 0 (span_size s)]"
    by (subst SplitRaw_loop.simps) (simp add: assms Next_empty)
  with False show ?thesis by (simp add: SplitRaw_def)
qed

lemma Split_empty:
  assumes "view s = []"
  shows "\<exists>p. Split s separator = Inr [p]"
  using SplitRaw_empty [OF assms, of separator] by (auto simp: Split_def)

lemma span_size_slice_0_0 [simp]: "span_size (slice s 0 0) = 0"
  by (simp add: slice_def SpanString3_def span_size_def Let_def)

lemma Strip_empty:
  assumes "view s = []"
  shows "Strip s = slice s 0 0"
proof -
  have "StripSpaces s = slice s 0 0" using assms by (simp add: StripSpaces_def)
  then show ?thesis by (subst Strip_unfold) (simp add: peels_def)
qed

lemma ParseGenericCall_empty:
  "view s = [] \<Longrightarrow> ParseGenericCall too_much s opn closing = Inr None"
  by (simp add: ParseGenericCall_def Strip_empty span_empty_def)

lemma ParseInfix_loop_empty:
  "view s = [] \<Longrightarrow> ParseInfix_loop P s dis ops = Inr None"
proof (induction ops)
  case Nil
  show ?case by simp
next
  case (Cons op ops)
  from SplitRaw_empty [OF Cons.prems, of op] obtain p where "SplitRaw s op = Inr [p]" by blast
  with Cons show ?case by simp
qed

lemma ParseLiteral_empty:
  assumes "span_ok s" "view s = []"
  shows "ParseLiteral P s = Inr None"
proof -
  from assms have size: "span_size s = 0" using length_view [of s] by simp
  have n: "ParseNumber (strtod P) s = None"
    using assms(2)
    by (auto simp: ParseNumber_def ends_with_def str_def infinity_literal_def c_str_def Let_def
        split: prod.splits)
  have "ParseString s = None" using assms(2) by (simp add: ParseString_def)
  moreover have "ParseList P s = Inr None" using size by (simp add: ParseList_def)
  moreover have "ParseBoolean s = None" "ParseNull s = None" "ParsePredicateLiteral s = None"
    using assms(2) by (simp_all add: ParseBoolean_def ParseNull_def ParsePredicateLiteral_def str_def)
  ultimately show ?thesis using n by (simp add: ParseLiteral_def)
qed

lemma ActuallyParseExpression_empty:
  assumes "span_ok s" "view s = []"
  shows "ActuallyParseExpression P s = throw ''Could not parse expression of a value.'' s"
proof -
  from assms have size: "span_size s = 0" using length_view [of s] by simp
  have 1: "ParseCombine P s = Inr None"
    using assms(2) by (simp add: ParseCombine_def starts_with_def)
  have 2: "ParseImplication P s = Inr None"
    using assms(2) by (simp add: ParseImplication_def starts_with_def)
  have 3: "ParseLiteral P s = Inr None" using assms by (rule ParseLiteral_empty)
  have 4: "ParseVariable s = Inr None" using size by (simp add: ParseVariable_def span_empty_def)
  have 5: "ParseRecord P s = Inr None"
    using assms(2) by (simp add: ParseRecord_def Strip_empty)
  have 6: "ParsePropositionalImplication P s = Inr None"
    using Split_empty [OF assms(2), of "''=>''"] by (auto simp: ParsePropositionalImplication_def)
  have 7: "ParseCall P s False = Inr None"
    using assms(2) by (simp add: ParseCall_def ParseGenericCall_empty)
  have 8: "ParseUltraConciseCombine P s = Inr None"
    using assms(2) by (simp add: ParseUltraConciseCombine_def ParseGenericCall_empty)
  have 9: "ParseInfix P s None [''~''] = Inr None"
    using assms(2) by (simp add: ParseInfix_def ParseInfix_loop_empty)
  have 10: "ParseSubscript P s = Inr None"
    using SplitRaw_empty [OF assms(2), of "''.''"] by (auto simp: ParseSubscript_def)
  have 11: "ParseNegationExpression P s = Inr None"
    using Split_empty [OF assms(2), of "''~''"]
    by (auto simp: ParseNegationExpression_def ParseNegation_def)
  have 12: "ParseArraySub P s = Inr None"
    using assms(2) by (simp add: ParseArraySub_def ParseGenericCall_empty)
  show ?thesis
    by (simp add: ActuallyParseExpression_def 1 2 3 4 5 6 7 8 9 10 11 12)
qed

lemma obj_find_obj_set [simp]: "obj_find k (obj_set k v ob) = Some v"
  by (induction ob) (auto simp: obj_find_def)




section \<open>A file without statements\<close>

subsection \<open>Splitting white space and semicolons\<close>

text \<open>A text of white space and semicolons, which is what a file of comments is without them.\<close>

definition blank :: "string \<Rightarrow> bool" where
  "blank code = list_all (\<lambda>c. isspace c \<or> c = CHR '';'') code"

lemma isspace_plain:
  "isspace c \<or> c = CHR '';'' \<Longrightarrow>
     c \<noteq> CHR ''#'' \<and> c \<noteq> CHR 0x22 \<and> c \<noteq> CHR 0x27 \<and> c \<noteq> CHR 0x60 \<and> c \<noteq> CHR ''/'' \<and>
     c \<noteq> CHR ''('' \<and> c \<noteq> CHR '')'' \<and> c \<noteq> CHR ''{'' \<and> c \<noteq> CHR ''}'' \<and>
     c \<noteq> CHR ''['' \<and> c \<noteq> CHR '']''"
  by (auto simp: isspace_def less_eq_char_def)

lemma sub3_first: "sub3 v i = triple_quote \<Longrightarrow> v ! i = CHR 0x22"
  by (auto simp: sub3_def triple_quote_def hd_drop_conv_nth take_Suc_conv_app_nth
      split: if_splits dest!: arg_cong [where f = hd])

lemma sub2_first: "sub2 v i = ''/*'' \<Longrightarrow> v ! i = CHR ''/''"
  by (auto simp: sub2_def hd_drop_conv_nth split: if_splits dest!: arg_cong [where f = hd])

lemma visit_plain:
  assumes "isspace (v ! i) \<or> v ! i = CHR '';''"
  shows "visit v i [] = Yield \<lparr>idx = i, state = [], status = OK\<rparr> (i + 1, [])"
  using isspace_plain [OF assms] sub3_first [of v i] sub2_first [of v i]
  by (auto simp: visit_def State_def track_def Let_def)

lemma Next_plain:
  assumes "i < length v" "isspace (v ! i) \<or> v ! i = CHR '';''"
  shows "Next v (i, []) = Some (\<lparr>idx = i, state = [], status = OK\<rparr>, (i + 1, []))"
  using assms(1) by (subst Next.simps) (simp add: visit_plain [OF assms(2)])

lemma separator_at_semicolon:
  "i < length v \<Longrightarrow> separator_at v '';'' i \<longleftrightarrow> v ! i = CHR '';''"
  by (auto simp: separator_at_def isalnum_def isalpha_def islower_def isupper_def isdigit_def
      less_eq_char_def take_Suc_conv_app_nth hd_drop_conv_nth
      dest!: arg_cong [where f = hd])

lemma SplitRaw_loop_blank:
  assumes "span_ok s" "blank (view s)"
    and "part_start \<le> pos" "pos \<le> length (view s)"
    and "\<forall>i. part_start \<le> i \<and> i < pos \<longrightarrow> isspace (view s ! i)"
  shows "\<exists>new. SplitRaw_loop s '';'' (pos, []) part_start parts = Inr (parts @ new) \<and>
               (\<forall>p\<in>set new. list_all isspace (view p))"
  using assms(3-)
proof (induction "length (view s) - pos" arbitrary: pos part_start parts)
  case 0
  let ?v = "view s"
  from 0 have pos: "pos = length ?v" by simp
  then have n: "Next ?v (pos, []) = None" by (simp add: Next.simps)
  have size: "span_size s = length ?v" using length_view [OF assms(1)] by simp
  have "view (slice s part_start (span_size s)) = take (span_size s - part_start) (drop part_start ?v)"
    using "0.prems"(1) pos size by (intro view_slice) auto
  then have v: "view (slice s part_start (span_size s)) = drop part_start ?v" by (simp add: size)
  have "list_all isspace (drop part_start ?v)"
    using "0.prems"(3) pos by (auto simp: list_all_length)
  with v n show ?case
    by (subst SplitRaw_loop.simps) simp
next
  case (Suc n)
  let ?v = "view s"
  from Suc.hyps(2) have lt: "pos < length ?v" by simp
  from assms(2) lt have pl: "isspace (?v ! pos) \<or> ?v ! pos = CHR '';''"
    by (simp add: blank_def list_all_length)
  note nx = Next_plain [OF lt pl]
  show ?case
  proof (cases "?v ! pos = CHR '';''")
    case True
    have n': "n = length ?v - (pos + 1)" using Suc.hyps(2) by simp
    have inv: "\<forall>i. pos + 1 \<le> i \<and> i < pos + 1 \<longrightarrow> isspace (?v ! i)" by auto
    from Suc.hyps(1) [OF n' _ _ inv, of "parts @ [slice s part_start pos]"] lt
    obtain new where new:
      "SplitRaw_loop s '';'' (pos + 1, []) (pos + 1) (parts @ [slice s part_start pos]) =
         Inr ((parts @ [slice s part_start pos]) @ new)"
      "\<forall>p\<in>set new. list_all isspace (view p)"
      by auto
    have "view (slice s part_start pos) = take (pos - part_start) (drop part_start ?v)"
      using Suc.prems(1) lt by (intro view_slice) auto
    moreover have "list_all isspace (take (pos - part_start) (drop part_start ?v))"
      using Suc.prems(3) lt by (auto simp: list_all_length)
    ultimately have p: "list_all isspace (view (slice s part_start pos))" by simp
    have "SplitRaw_loop s '';'' (pos, []) part_start parts =
            SplitRaw_loop s '';'' (pos + 1, []) (pos + 1) (parts @ [slice s part_start pos])"
      using True lt by (subst SplitRaw_loop.simps) (simp add: nx separator_at_semicolon)
    with new p show ?thesis
      by (intro exI [of _ "slice s part_start pos # new"]) simp
  next
    case False
    with pl have sp: "isspace (?v ! pos)" by simp
    have n': "n = length ?v - (pos + 1)" using Suc.hyps(2) by simp
    have inv: "\<forall>i. part_start \<le> i \<and> i < pos + 1 \<longrightarrow> isspace (?v ! i)"
      using Suc.prems(3) sp by (auto simp: less_Suc_eq)
    from Suc.hyps(1) [OF n' _ _ inv, of parts] lt Suc.prems(1)
    obtain new where new:
      "SplitRaw_loop s '';'' (pos + 1, []) part_start parts = Inr (parts @ new)"
      "\<forall>p\<in>set new. list_all isspace (view p)"
      by auto
    have "SplitRaw_loop s '';'' (pos, []) part_start parts =
            SplitRaw_loop s '';'' (pos + 1, []) part_start parts"
      using False lt by (subst SplitRaw_loop.simps) (simp add: nx separator_at_semicolon)
    with new show ?thesis by auto
  qed
qed

lemma scan_left_spaces:
  "list_all isspace v \<Longrightarrow> l \<le> length v \<Longrightarrow> scan_left v l = length v"
proof (induction v l rule: scan_left.induct)
  case (1 v left)
  show ?case
  proof (cases "left < length v")
    case True
    with "1.prems" have "isspace (v ! left)" by (simp add: list_all_length)
    with True "1.IH" "1.prems" show ?thesis by (subst scan_left.simps) simp
  next
    case False
    with "1.prems" show ?thesis by (subst scan_left.simps) simp
  qed
qed

lemma span_size_slice_same [simp]: "span_size (slice s a a) = 0"
  by (simp add: slice_def SpanString3_def span_size_def Let_def)

lemma Strip_spaces:
  assumes "list_all isspace (view p)"
  shows "span_empty (Strip p)"
proof -
  have "span_size (StripSpaces p) = 0"
  proof (cases "view p = []")
    case True
    then show ?thesis by (simp add: StripSpaces_def)
  next
    case False
    have l: "scan_left (view p) 0 = length (view p)"
      using assms by (simp add: scan_left_spaces)
    have "scan_right (view p) (length (view p)) (length (view p) - 1) = length (view p) - 1"
      by (subst scan_right.simps) auto
    with False l show ?thesis by (simp add: StripSpaces_def Let_def)
  qed
  then have "Strip p = StripSpaces p" "span_empty (StripSpaces p)"
    by (subst Strip_unfold, simp add: peels_def, simp add: span_empty_def)
  then show ?thesis by simp
qed

lemma Split_blank:
  assumes "span_ok s" "blank (view s)"
  shows "\<exists>parts. Split s '';'' = Inr parts \<and> list_all span_empty parts"
proof -
  from SplitRaw_loop_blank [OF assms, of 0 0 "[]"] obtain raw where
    raw: "SplitRaw_loop s '';'' (0, []) 0 [] = Inr raw" "\<forall>p\<in>set raw. list_all isspace (view p)"
    by auto
  then have "Split s '';'' = Inr (map Strip raw)"
    by (simp add: Split_def SplitRaw_def)
  moreover from raw(2) have "list_all span_empty (map Strip raw)"
    by (simp add: list_all_iff Strip_spaces)
  ultimately show ?thesis by blast
qed

subsection \<open>The loop over empty statements\<close>

lemma foldE_empty_statements:
  "list_all span_empty statements \<Longrightarrow>
     foldE (parse_statement make_parsers import_file) L statements = Inr L"
  by (induction statements) (simp_all add: parse_statement_def)

lemma rewrites_empty:
  "DnfRewrite (JArray []) = Inr (JArray [])"
  "MultiBodyAggregationRewrite (JArray []) = Inr (JArray [])"
  "RewriteAggregationsAsExpressions (JArray []) = Inr (JArray [])"
  by code_simp+

lemma assemble_empty: "assemble ''main'' [] [] = Inr []"
  by code_simp

text \<open>
  Claim C10. A text of which \<^verbatim>\<open>RemoveComments\<close> leaves only white space and semicolons,
  the empty text among them, is parsed as the file \<^verbatim>\<open>main\<close> without error, whatever the
  parsers, the files and the incantation flag are: it has no rule, no imported predicate
  and the empty prefix.
\<close>

theorem ParseFile_blank:
  assumes "RemoveComments (SpanString1 content) = Inr code" "blank code"
  shows "ParseFile make_parsers files (Suc depth) too_much content ''main'' import_root =
           Inr (JObject [(''file_name'', JString ''main''),
                         (''imported_predicates'', JArray []),
                         (''predicates_prefix'', JString []),
                         (''rule'', JArray [])])"
proof -
  from Split_blank [of "SpanString1 code"] assms(2) obtain statements where
    st: "Split (SpanString1 code) '';'' = Inr statements" "list_all span_empty statements"
    by auto
  show ?thesis
    by (simp add: ParseFile_def ParseFileInternal_body_def assms(1) st
        foldE_empty_statements [OF st(2)] rewrites_empty prefix_of_file_def rename_own_def
        assemble_empty)
qed

lemma RemoveComments_example:
  "RemoveComments (SpanString1 ''# c\<newline> ; /* x; */ ;\<newline>'') = Inr ''\<newline> ;  ;\<newline>''"
  by code_simp

theorem ParseFile_blank_witness:
  "RemoveComments (SpanString1 ''# c\<newline> ; /* x; */ ;\<newline>'') = Inr ''\<newline> ;  ;\<newline>'' \<and>
   blank ''\<newline> ;  ;\<newline>'' \<and>
   ParseFile (\<lambda>too_much. parsers too_much strtod_digits 0) (\<lambda>path. None) (Suc 0) False
     ''# c\<newline> ; /* x; */ ;\<newline>'' ''main'' [] =
     Inr (JObject [(''file_name'', JString ''main''),
                   (''imported_predicates'', JArray []),
                   (''predicates_prefix'', JString []),
                   (''rule'', JArray [])])"
proof -
  have b: "blank ''\<newline> ;  ;\<newline>''" by (simp add: blank_def isspace_def less_eq_char_def)
  from ParseFile_blank [OF RemoveComments_example b] RemoveComments_example b
  show ?thesis by simp
qed

text \<open>The empty text.\<close>

lemma ParseFile_empty:
  "ParseFile make_parsers files (Suc depth) too_much [] ''main'' import_root =
     Inr (JObject [(''file_name'', JString ''main''),
                   (''imported_predicates'', JArray []),
                   (''predicates_prefix'', JString []),
                   (''rule'', JArray [])])"
proof -
  have "Traverse (SpanString1 []) = []"
    by (simp add: Traverse_def steps_from.simps Next.simps)
  then have "RemoveComments (SpanString1 []) = Inr []" by (simp add: RemoveComments_def)
  moreover have "blank []" by (simp add: blank_def)
  ultimately show ?thesis by (rule ParseFile_blank)
qed

end
